theory Spec2Isabelle
  imports Main "HOL-Library.AList" "HOL-Library.Char_ord" "HOL-Library.List_Lexorder"
    "HOL-Library.Product_Lexorder"
begin

section \<open>Strings\<close>

text \<open>
  A Python \<open>str\<close> is modelled as a \<open>string\<close>, one \<open>char\<close> per code point, for code
  points up to \<open>U+00FF\<close>. White space is that of \<open>str.strip\<close>, \<open>str.isspace\<close> and the
  pattern \<open>\s\<close> on this range, and \<open>lower_chr\<close> is \<open>str.lower\<close> on it. Upper-casing, the
  cased characters of \<open>title\<close> and the word characters of \<open>\w\<close> and \<open>\b\<close> are those of ASCII
  text. The literals of the source beyond the range (a bullet, a dash, an emoji), which
  occur in printed messages only, are written as their UTF-8 bytes.
\<close>

definition is_space :: "char \<Rightarrow> bool" where
  "is_space c = (c \<in> set [CHR 0x09, CHR 0x0A, CHR 0x0B, CHR 0x0C, CHR 0x0D,
                           CHR 0x1C, CHR 0x1D, CHR 0x1E, CHR 0x1F, CHR 0x20,
                           CHR 0x85, CHR 0xA0])"

definition is_upper :: "char \<Rightarrow> bool" where
  "is_upper c = (CHR ''A'' \<le> c \<and> c \<le> CHR ''Z'')"

definition is_lower :: "char \<Rightarrow> bool" where
  "is_lower c = (CHR ''a'' \<le> c \<and> c \<le> CHR ''z'')"

definition is_digit :: "char \<Rightarrow> bool" where
  "is_digit c = (CHR ''0'' \<le> c \<and> c \<le> CHR ''9'')"

text \<open>The upper-case letters of \<open>U+00C0\<close> to \<open>U+00DE\<close>; \<open>U+00D7\<close> is the multiplication sign.\<close>

definition is_upper_latin1 :: "char \<Rightarrow> bool" where
  "is_upper_latin1 c = (CHR 0xC0 \<le> c \<and> c \<le> CHR 0xDE \<and> c \<noteq> CHR 0xD7)"

definition lower_chr :: "char \<Rightarrow> char" where
  "lower_chr c =
     (if is_upper c \<or> is_upper_latin1 c then char_of (of_char c + (32::nat)) else c)"

definition upper_chr :: "char \<Rightarrow> char" where
  "upper_chr c = (if is_lower c then char_of (of_char c - (32::nat)) else c)"

definition lower :: "string \<Rightarrow> string" where
  "lower s = map lower_chr s"

definition lstrip :: "string \<Rightarrow> string" where
  "lstrip s = dropWhile is_space s"

definition rstrip :: "string \<Rightarrow> string" where
  "rstrip s = rev (dropWhile is_space (rev s))"

definition strip :: "string \<Rightarrow> string" where
  "strip s = rstrip (lstrip s)"

text \<open>\<open>s.strip(chars)\<close> and \<open>s.rstrip(chars)\<close> with an explicit character set.\<close>

definition rstrip_chars :: "string \<Rightarrow> string \<Rightarrow> string" where
  "rstrip_chars cs s = rev (dropWhile (\<lambda>c. c \<in> set cs) (rev s))"

definition strip_chars :: "string \<Rightarrow> string \<Rightarrow> string" where
  "strip_chars cs s = rstrip_chars cs (dropWhile (\<lambda>c. c \<in> set cs) s)"

text \<open>\<open>s.replace(a, b)\<close> for one-character \<open>a\<close> and \<open>b\<close>.\<close>

definition replace_chr :: "char \<Rightarrow> char \<Rightarrow> string \<Rightarrow> string" where
  "replace_chr a b s = map (\<lambda>c. if c = a then b else c) s"

definition startswith :: "string \<Rightarrow> string \<Rightarrow> bool" where
  "startswith s p = (take (length p) s = p)"

text \<open>\<open>n in h\<close> on strings: \<open>n\<close> occurs in \<open>h\<close> as a substring.\<close>

fun contains :: "string \<Rightarrow> string \<Rightarrow> bool" where
  "contains n [] = (n = [])"
| "contains n (x # xs) = (take (length n) (x # xs) = n \<or> contains n xs)"

text \<open>\<open>s.split(c)\<close> for a one-character separator: empty pieces are kept.\<close>

fun split_chr :: "char \<Rightarrow> string \<Rightarrow> string list" where
  "split_chr c [] = [[]]"
| "split_chr c (x # xs) =
     (if x = c then [] # split_chr c xs
      else (case split_chr c xs of [] \<Rightarrow> [[x]] | w # ws \<Rightarrow> (x # w) # ws))"

text \<open>\<open>s.split(c, 1)\<close>: the text before the first \<open>c\<close> and, when there is one, the text after it.\<close>

definition split_once :: "char \<Rightarrow> string \<Rightarrow> string \<times> string option" where
  "split_once c s =
     (if c \<in> set s then (takeWhile (\<lambda>x. x \<noteq> c) s, Some (tl (dropWhile (\<lambda>x. x \<noteq> c) s)))
      else (s, None))"

text \<open>\<open>sep.join(xs)\<close>.\<close>

fun join :: "string \<Rightarrow> string list \<Rightarrow> string" where
  "join sep [] = []"
| "join sep [x] = x"
| "join sep (x # y # ys) = x @ sep @ join sep (y # ys)"

text \<open>
  \<open>s.title()\<close>: a cased character that follows an uncased one (or starts the string) is
  upper-cased, every other cased character is lower-cased.
\<close>

fun title_aux :: "bool \<Rightarrow> string \<Rightarrow> string" where
  "title_aux prev [] = []"
| "title_aux prev (c # cs) =
     (if is_upper c \<or> is_lower c
      then (if prev then lower_chr c else upper_chr c) # title_aux True cs
      else c # title_aux False cs)"

definition title :: "string \<Rightarrow> string" where
  "title s = title_aux False s"

section \<open>The fact store (memory.py)\<close>

text \<open>
  A conversation turn is the dictionary \<open>entry\<close> of \<open>append_conversation\<close>: each of the
  keys \<open>user\<close> and \<open>bot\<close> is present or not.
\<close>

record turn =
  user :: "string option"
  bot :: "string option"

text \<open>
  The parsed document. \<open>facts\<close> is a Python dictionary, kept as an association list in
  insertion order; either top-level key may be missing from a document, which is what
  the source's \<open>.get("facts", {})\<close> and \<open>setdefault\<close> provide for.
\<close>

record document =
  facts :: "(string \<times> string) list option"
  conversations :: "turn list option"

text \<open>
  The backing file \<open>memory.json\<close>, as \<open>_read\<close> tells its states apart: no file, a file
  of white space only, a text that \<open>json.loads\<close> rejects, a text that parses to a JSON
  value that is not an object (\<open>[]\<close>, \<open>null\<close>, a number, a string), a text that parses to
  a document. An object whose \<open>facts\<close> is not an object of strings or whose
  \<open>conversations\<close> is not a list is not among the states.
\<close>

datatype disk = Absent | Blank | Corrupt | NotObject | Json document

text \<open>
  What \<open>_read\<close> returns: \<open>json.loads\<close> hands back whatever value the text denotes, and
  nothing in \<open>_read\<close> looks at its type.
\<close>

datatype parsed = Document document | OtherValue

text \<open>
  The exceptions that leave a function: those of \<open>_read\<close>, the \<open>AttributeError\<close> of a
  \<open>.get\<close> or \<open>.setdefault\<close> on a value that is not a dictionary, and whatever the
  language-model backend raises.
\<close>

datatype error = FileNotFoundError | JSONDecodeError | AttributeError | BackendError

definition MAX_CONVERSATIONS :: nat where
  "MAX_CONVERSATIONS = 500"

definition empty_document :: document where
  "empty_document = \<lparr>facts = Some [], conversations = Some []\<rparr>"

definition mem_read :: "disk \<Rightarrow> error + parsed" where
  "mem_read d =
     (case d of
        Absent \<Rightarrow> Inl FileNotFoundError
      | Blank \<Rightarrow> Inr (Document empty_document)
      | Corrupt \<Rightarrow> Inl JSONDecodeError
      | NotObject \<Rightarrow> Inr OtherValue
      | Json doc \<Rightarrow> Inr (Document doc))"

text \<open>
  \<open>self._read().get(...)\<close> and \<open>data.setdefault(...)\<close>: the read, then the first
  dictionary method called on its result.
\<close>

definition read_dict :: "disk \<Rightarrow> error + document" where
  "read_dict d =
     (case mem_read d of
        Inl e \<Rightarrow> Inl e
      | Inr OtherValue \<Rightarrow> Inl AttributeError
      | Inr (Document data) \<Rightarrow> Inr data)"

definition safe_write :: "document \<Rightarrow> disk" where
  "safe_write obj = Json obj"

text \<open>
  \<open>Memory.__init__\<close>: the state of the file once the store is constructed. The
  constructor rewrites the file when it is missing or when \<open>_read\<close> raises, and keeps it
  otherwise.
\<close>

definition Memory_init :: "disk \<Rightarrow> disk" where
  "Memory_init d =
     (if d = Absent then safe_write empty_document
      else (case mem_read d of
              Inr _ \<Rightarrow> d
            | Inl _ \<Rightarrow> safe_write empty_document))"

definition get_facts :: "document \<Rightarrow> (string \<times> string) list" where
  "get_facts data = (case facts data of None \<Rightarrow> [] | Some fs \<Rightarrow> fs)"

definition get_conversations :: "document \<Rightarrow> turn list" where
  "get_conversations data = (case conversations data of None \<Rightarrow> [] | Some c \<Rightarrow> c)"

definition remember :: "string \<Rightarrow> string \<Rightarrow> disk \<Rightarrow> error + disk" where
  "remember key val d =
     (case read_dict d of
        Inl e \<Rightarrow> Inl e
      | Inr data \<Rightarrow> Inr (safe_write (data\<lparr>facts := Some (AList.update key val (get_facts data))\<rparr>)))"

definition recall :: "string \<Rightarrow> disk \<Rightarrow> error + string option" where
  "recall key d =
     (case read_dict d of
        Inl e \<Rightarrow> Inl e
      | Inr data \<Rightarrow> Inr (map_of (get_facts data) key))"

definition facts_like :: "string \<Rightarrow> disk \<Rightarrow> error + (string \<times> string) list" where
  "facts_like needle d =
     (case read_dict d of
        Inl e \<Rightarrow> Inl e
      | Inr data \<Rightarrow>
          Inr (filter (\<lambda>(k, v). contains (lower needle) (lower k) \<or> contains (lower needle) (lower v))
                 (get_facts data)))"

definition append_conversation :: "string option \<Rightarrow> string option \<Rightarrow> disk \<Rightarrow> error + disk" where
  "append_conversation u b d =
     (case mem_read d of
        Inl e \<Rightarrow> Inl e
      | Inr _ \<Rightarrow>
          if u = None \<and> b = None then Inr d
          else
            (case read_dict d of
               Inl e \<Rightarrow> Inl e
             | Inr data \<Rightarrow>
                 let conv = get_conversations data @ [\<lparr>user = u, bot = b\<rparr>];
                     conv' = (if length conv > MAX_CONVERSATIONS
                              then drop (length conv - MAX_CONVERSATIONS) conv else conv)
                 in Inr (safe_write (data\<lparr>conversations := Some conv'\<rparr>))))"

text \<open>A run of \<open>append_conversation\<close> calls, one per pair, stopping at the first error.\<close>

fun append_all :: "(string option \<times> string option) list \<Rightarrow> disk \<Rightarrow> error + disk" where
  "append_all [] d = Inr d"
| "append_all ((u, b) # es) d =
     (case append_conversation u b d of
        Inl e \<Rightarrow> Inl e
      | Inr d' \<Rightarrow> append_all es d')"

text \<open>
  What the store holds, read back from the file, and whether the file reads as a
  document at all.
\<close>

definition stored_turns :: "disk \<Rightarrow> turn list" where
  "stored_turns d = (case read_dict d of Inl _ \<Rightarrow> [] | Inr data \<Rightarrow> get_conversations data)"

definition stored_facts :: "disk \<Rightarrow> (string \<times> string) list" where
  "stored_facts d = (case read_dict d of Inl _ \<Rightarrow> [] | Inr data \<Rightarrow> get_facts data)"

definition readable :: "disk \<Rightarrow> bool" where
  "readable d = (case read_dict d of Inl _ \<Rightarrow> False | Inr _ \<Rightarrow> True)"

text \<open>Python's \<open>xs[-n:]\<close> for a positive \<open>n\<close>: the last \<open>n\<close> elements, in their order.\<close>

definition last_n :: "nat \<Rightarrow> 'a list \<Rightarrow> 'a list" where
  "last_n n xs = drop (length xs - n) xs"

definition mk_turn :: "string option \<times> string option \<Rightarrow> turn" where
  "mk_turn e = \<lparr>user = fst e, bot = snd e\<rparr>"

section \<open>Regular expressions (the subset of Python's \<open>re\<close> the source uses)\<close>

text \<open>
  A pattern is a term of \<open>regex\<close>. Matching follows the backtracking order of
  \<open>re\<close>: \<open>rmatch\<close> returns every way a pattern can match at a position, most preferred
  first (the left alternative before the right one, the longer repetition before the
  shorter one), so the head of the list is the match that \<open>re\<close> reports.
\<close>

datatype citem = CChar char | CRange char char | CSpace

datatype regex =
    Lit char
  | AnyChr
  | Cls bool "citem list"
  | Eps
  | Seq regex regex
  | Alt regex regex
  | Star regex
  | Rep nat nat regex
  | Group nat regex
  | Bol
  | Eol
  | WordB

text \<open>
  A position in the subject: the character before it (none at the start of the string),
  the text from it on, and the groups captured so far (the latest first).
\<close>

record mstate =
  prev :: "char option"
  rest :: string
  groups :: "(nat \<times> string) list"

definition is_word :: "char \<Rightarrow> bool" where
  "is_word c = (is_upper c \<or> is_lower c \<or> is_digit c \<or> c = CHR ''_'')"

fun citem_match :: "citem \<Rightarrow> char \<Rightarrow> bool" where
  "citem_match (CChar a) c = (c = a)"
| "citem_match (CRange lo hi) c = (lo \<le> c \<and> c \<le> hi)"
| "citem_match CSpace c = is_space c"

text \<open>With \<open>re.I\<close> a character matches when it or its other case does.\<close>

definition chr_eq :: "bool \<Rightarrow> char \<Rightarrow> char \<Rightarrow> bool" where
  "chr_eq ci a c = (if ci then lower_chr a = lower_chr c else a = c)"

definition cls_match :: "bool \<Rightarrow> bool \<Rightarrow> citem list \<Rightarrow> char \<Rightarrow> bool" where
  "cls_match ci neg items c =
     (let hit = list_ex (\<lambda>i. citem_match i c \<or>
                   (ci \<and> (citem_match i (lower_chr c) \<or> citem_match i (upper_chr c)))) items
      in hit \<noteq> neg)"

definition step_chr :: "(char \<Rightarrow> bool) \<Rightarrow> mstate \<Rightarrow> mstate list" where
  "step_chr p st =
     (case rest st of
        [] \<Rightarrow> []
      | c # cs \<Rightarrow> if p c then [st\<lparr>prev := Some c, rest := cs\<rparr>] else [])"

definition at_word_boundary :: "mstate \<Rightarrow> bool" where
  "at_word_boundary st =
     ((case prev st of None \<Rightarrow> False | Some c \<Rightarrow> is_word c)
      \<noteq> (case rest st of [] \<Rightarrow> False | c # _ \<Rightarrow> is_word c))"

text \<open>
  Greedy repetition. Each round of \<open>r*\<close> has to consume a character, so the length
  of the remaining text bounds the number of rounds.
\<close>

fun star_iter :: "nat \<Rightarrow> (mstate \<Rightarrow> mstate list) \<Rightarrow> mstate \<Rightarrow> mstate list" where
  "star_iter 0 f st = [st]"
| "star_iter (Suc n) f st =
     concat (map (star_iter n f) (filter (\<lambda>st'. length (rest st') < length (rest st)) (f st)))
       @ [st]"

fun rep_iter :: "nat \<Rightarrow> nat \<Rightarrow> (mstate \<Rightarrow> mstate list) \<Rightarrow> mstate \<Rightarrow> mstate list" where
  "rep_iter lo 0 f st = (if lo = 0 then [st] else [])"
| "rep_iter lo (Suc hi) f st =
     concat (map (rep_iter (lo - 1) hi f) (f st)) @ (if lo = 0 then [st] else [])"

primrec rmatch :: "bool \<Rightarrow> regex \<Rightarrow> mstate \<Rightarrow> mstate list" where
  "rmatch ci (Lit a) = step_chr (chr_eq ci a)"
| "rmatch ci AnyChr = step_chr (\<lambda>c. c \<noteq> CHR 0x0A)"
| "rmatch ci (Cls neg items) = step_chr (cls_match ci neg items)"
| "rmatch ci Eps = (\<lambda>st. [st])"
| "rmatch ci (Seq a b) = (\<lambda>st. concat (map (rmatch ci b) (rmatch ci a st)))"
| "rmatch ci (Alt a b) = (\<lambda>st. rmatch ci a st @ rmatch ci b st)"
| "rmatch ci (Star a) = (\<lambda>st. star_iter (length (rest st)) (rmatch ci a) st)"
| "rmatch ci (Rep lo hi a) = rep_iter lo hi (rmatch ci a)"
| "rmatch ci (Group n a) =
     (\<lambda>st. map (\<lambda>st'. st'\<lparr>groups :=
                    (n, take (length (rest st) - length (rest st')) (rest st)) # groups st'\<rparr>)
             (rmatch ci a st))"
| "rmatch ci Bol = (\<lambda>st. if prev st = None then [st] else [])"
| "rmatch ci Eol = (\<lambda>st. if rest st = [] \<or> rest st = [CHR 0x0A] then [st] else [])"
| "rmatch ci WordB = (\<lambda>st. if at_word_boundary st then [st] else [])"

text \<open>Pattern syntax written with the constructors: \<open>r+\<close>, \<open>r?\<close>, a literal text, \<open>\s\<close>, \<open>a|b|c\<close>.\<close>

definition Plus :: "regex \<Rightarrow> regex" where
  "Plus r = Seq r (Star r)"

definition Opt :: "regex \<Rightarrow> regex" where
  "Opt r = Alt r Eps"

definition Str :: "string \<Rightarrow> regex" where
  "Str s = foldr (\<lambda>c r. Seq (Lit c) r) s Eps"

definition Sp :: regex where
  "Sp = Cls False [CSpace]"

fun Alts :: "regex list \<Rightarrow> regex" where
  "Alts [] = Cls False []"
| "Alts [r] = r"
| "Alts (r # rs) = Alt r (Alts rs)"

fun Seqs :: "regex list \<Rightarrow> regex" where
  "Seqs [] = Eps"
| "Seqs [r] = r"
| "Seqs (r # rs) = Seq r (Seqs rs)"

text \<open>
  A match object: the text skipped before the match, the matched text, and the captured
  groups. \<open>find_match\<close> is the scan of \<open>search\<close>: the first position, from the current one
  on, at which the pattern matches. With \<open>adv\<close> set, an empty match at the first
  position does not count (a substitution that has just replaced an empty match there).
\<close>

record rematch =
  skipped :: string
  matched :: string
  mgroups :: "(nat \<times> string) list"

fun find_match :: "bool \<Rightarrow> regex \<Rightarrow> bool \<Rightarrow> char option \<Rightarrow> string \<Rightarrow> rematch option" where
  "find_match ci r adv p [] =
     (case filter (\<lambda>st. \<not> adv) (rmatch ci r \<lparr>prev = p, rest = [], groups = []\<rparr>) of
        st # _ \<Rightarrow> Some \<lparr>skipped = [], matched = [], mgroups = groups st\<rparr>
      | [] \<Rightarrow> None)"
| "find_match ci r adv p (c # cs) =
     (case filter (\<lambda>st. if adv then length (rest st) < length (c # cs) else True)
             (rmatch ci r \<lparr>prev = p, rest = c # cs, groups = []\<rparr>) of
        st # _ \<Rightarrow> Some \<lparr>skipped = [],
                        matched = take (length (c # cs) - length (rest st)) (c # cs),
                        mgroups = groups st\<rparr>
      | [] \<Rightarrow> (case find_match ci r False (Some c) cs of
                 None \<Rightarrow> None
               | Some m \<Rightarrow> Some (m\<lparr>skipped := c # skipped m\<rparr>)))"

definition re_search :: "bool \<Rightarrow> regex \<Rightarrow> string \<Rightarrow> rematch option" where
  "re_search ci r s = find_match ci r False None s"

text \<open>\<open>fullmatch\<close>: the most preferred match from the start that ends at the end of the string.\<close>

definition re_fullmatch :: "bool \<Rightarrow> regex \<Rightarrow> string \<Rightarrow> rematch option" where
  "re_fullmatch ci r s =
     (case filter (\<lambda>st. rest st = []) (rmatch ci r \<lparr>prev = None, rest = s, groups = []\<rparr>) of
        st # _ \<Rightarrow> Some \<lparr>skipped = [], matched = s, mgroups = groups st\<rparr>
      | [] \<Rightarrow> None)"

definition mgroup :: "nat \<Rightarrow> rematch \<Rightarrow> string" where
  "mgroup n m = (case map_of (mgroups m) n of None \<Rightarrow> [] | Some g \<Rightarrow> g)"

text \<open>
  \<open>re.sub(pattern, repl, s, count)\<close> with a constant replacement: the matches are found
  left to right, each search starting where the last match ended; \<open>count = None\<close> replaces
  them all. Every round but one after an empty match uses up a character of the subject,
  so \<open>2 * length s + 2\<close> rounds always suffice.
\<close>

fun sub_loop :: "nat \<Rightarrow> bool \<Rightarrow> regex \<Rightarrow> string \<Rightarrow> nat option \<Rightarrow> bool \<Rightarrow> char option \<Rightarrow> string \<Rightarrow> string" where
  "sub_loop 0 ci r repl cnt adv p s = s"
| "sub_loop (Suc fuel) ci r repl cnt adv p s =
     (if cnt = Some 0 then s
      else (case find_match ci r adv p s of
              None \<Rightarrow> s
            | Some m \<Rightarrow>
                let consumed = skipped m @ matched m;
                    s' = drop (length consumed) s;
                    p' = (if consumed = [] then p else Some (last consumed))
                in skipped m @ repl @
                   sub_loop fuel ci r repl (map_option (\<lambda>n. n - 1) cnt) (matched m = []) p' s'))"

definition re_sub :: "bool \<Rightarrow> regex \<Rightarrow> string \<Rightarrow> string \<Rightarrow> nat option \<Rightarrow> string" where
  "re_sub ci r repl s cnt = sub_loop (2 * length s + 2) ci r repl cnt False None s"

section \<open>Skill discovery and enable state (plugins.py)\<close>

text \<open>
  A skill's \<open>run(query, context)\<close> can read and write the fact store it is handed in
  \<open>context\<close>, and it can raise: it maps the query and the store's file to a reply
  (\<open>None\<close> when it raised) and the file it leaves behind.
\<close>

type_synonym skill_fn = "string \<Rightarrow> disk \<Rightarrow> string option \<times> disk"

record loaded_skill =
  sk_name :: string
  sk_run :: skill_fn
  sk_patterns :: "regex list"
  sk_description :: string

text \<open>
  What importing a skill file yields: the module's attributes \<open>run\<close> (when it is
  callable), \<open>NAME\<close>, \<open>TRIGGERS\<close> and \<open>DESCRIPTION\<close>. A trigger is kept as the result of
  \<open>re.compile(t, re.I)\<close>: \<open>None\<close> where compiling raises \<open>re.error\<close>.
\<close>

record pymodule =
  m_run :: "skill_fn option"
  m_NAME :: "string option"
  m_TRIGGERS :: "regex option list"
  m_DESCRIPTION :: "string option"

text \<open>
  The skills directory: its \<open>*.py\<close> files (file name and text, in the order \<open>glob\<close> lists
  them) and the state file \<open>_enabled.json\<close> (missing, not parseable, or a mapping).
\<close>

datatype state_file = NoState | BadState | State "(string \<times> bool) list"

record skills_fs =
  py_files :: "(string \<times> string) list"
  enabled_state :: state_file

text \<open>The import machinery: the module a file's text denotes, \<open>None\<close> when importing raises.\<close>

type_synonym importer = "string \<Rightarrow> string \<Rightarrow> pymodule option"

definition read_state :: "skills_fs \<Rightarrow> (string \<times> bool) list" where
  "read_state fs = (case enabled_state fs of State st \<Rightarrow> st | _ \<Rightarrow> [])"

definition write_state :: "(string \<times> bool) list \<Rightarrow> skills_fs \<Rightarrow> skills_fs" where
  "write_state st fs = fs\<lparr>enabled_state := State st\<rparr>"

definition is_enabled :: "string \<Rightarrow> (string \<times> bool) list \<Rightarrow> bool" where
  "is_enabled n st = (case map_of st n of None \<Rightarrow> True | Some b \<Rightarrow> b)"

text \<open>\<open>Path.stem\<close> of a file name that ends in \<open>.py\<close>.\<close>

definition stem :: "string \<Rightarrow> string" where
  "stem fname = (if fname = ''.py'' then fname else take (length fname - 3) fname)"

definition iter_skill_modules :: "skills_fs \<Rightarrow> (string \<times> string) list" where
  "iter_skill_modules fs =
     map (\<lambda>(fname, txt). (stem fname, txt))
       (filter (\<lambda>(fname, txt). \<not> (startswith (stem fname) ''_''
                                  \<or> stem fname \<in> set [''__init__'', ''registry'']))
          (py_files fs))"

definition compile_triggers :: "regex option list \<Rightarrow> regex list" where
  "compile_triggers ts = concat (map (\<lambda>t. case t of None \<Rightarrow> [] | Some r \<Rightarrow> [r]) ts)"

definition load_one :: "importer \<Rightarrow> string \<times> string \<Rightarrow> loaded_skill option" where
  "load_one imp modl =
     (case imp (fst modl) (snd modl) of
        None \<Rightarrow> None
      | Some md \<Rightarrow>
          (case m_run md of
             None \<Rightarrow> None
           | Some run \<Rightarrow>
               let n = (case m_NAME md of None \<Rightarrow> fst modl | Some n \<Rightarrow> n)
               in Some \<lparr>sk_name = n, sk_run = run,
                         sk_patterns = compile_triggers (m_TRIGGERS md),
                         sk_description = (case m_DESCRIPTION md of
                                             None \<Rightarrow> n @ '' skill'' | Some ds \<Rightarrow> ds)\<rparr>))"

fun load_loop :: "importer \<Rightarrow> (string \<times> bool) list \<Rightarrow> (string \<times> string) list
    \<Rightarrow> (string \<times> loaded_skill) list \<Rightarrow> (string \<times> loaded_skill) list" where
  "load_loop imp st [] result = result"
| "load_loop imp st (modl # mods) result =
     (case load_one imp modl of
        None \<Rightarrow> load_loop imp st mods result
      | Some sk \<Rightarrow>
          if \<not> is_enabled (sk_name sk) st then load_loop imp st mods result
          else load_loop imp st mods (AList.update (sk_name sk) sk result))"

definition load_skills :: "importer \<Rightarrow> skills_fs \<Rightarrow> (string \<times> loaded_skill) list" where
  "load_skills imp fs = load_loop imp (read_state fs) (iter_skill_modules fs) []"

definition list_all_skills :: "importer \<Rightarrow> skills_fs \<Rightarrow> (string \<times> bool \<times> string) list" where
  "list_all_skills imp fs =
     concat (map (\<lambda>modl. case load_one imp modl of
                            None \<Rightarrow> []
                          | Some sk \<Rightarrow> [(sk_name sk, is_enabled (sk_name sk) (read_state fs),
                                         sk_description sk)])
               (iter_skill_modules fs))"

definition set_enabled :: "string \<Rightarrow> bool \<Rightarrow> skills_fs \<Rightarrow> string \<times> skills_fs" where
  "set_enabled n enabled fs =
     ((if enabled then ''Enabled'' else ''Disabled'') @ '' skill '' @ [CHR 0x27] @ n @ [CHR 0x27]
        @ ''. Say '' @ [CHR 0x27] @ ''skill reload'' @ [CHR 0x27] @ '' to apply.'',
      write_state (AList.update n enabled (read_state fs)) fs)"

text \<open>\<open>PluginRouter\<close>: the skills and the flat rule list built from them.\<close>

record plugin_router =
  pr_skills :: "(string \<times> loaded_skill) list"
  pr_rules :: "(string \<times> regex) list"

definition PluginRouter :: "(string \<times> loaded_skill) list \<Rightarrow> plugin_router" where
  "PluginRouter sks =
     \<lparr>pr_skills = sks,
      pr_rules = concat (map (\<lambda>(n, sk). map (\<lambda>pat. (n, pat)) (sk_patterns sk)) sks)\<rparr>"

fun route_rules :: "(string \<times> regex) list \<Rightarrow> string \<Rightarrow> string option" where
  "route_rules [] s = None"
| "route_rules ((n, pat) # rules) s =
     (if re_search True pat s \<noteq> None then Some n else route_rules rules s)"

definition pr_route :: "plugin_router \<Rightarrow> string \<Rightarrow> loaded_skill option" where
  "pr_route r s =
     (case route_rules (pr_rules r) s of
        None \<Rightarrow> None
      | Some n \<Rightarrow> map_of (pr_skills r) n)"

text \<open>
  \<open>scaffold\<close>: the sanitised name, the template, and the write that happens only for a
  new path. Where \<open>glob\<close> will list a new file is up to the file system; the model puts
  it last.
\<close>

definition not_identifier_chr :: regex where
  "not_identifier_chr =
     Cls True [CRange (CHR ''a'') (CHR ''z''), CRange (CHR ''A'') (CHR ''Z''),
               CRange (CHR ''0'') (CHR ''9''), CChar (CHR ''_'')]"

text \<open>What the substitution does to one character: kept inside \<open>[A-Za-z0-9_]\<close>, an underscore otherwise.\<close>

definition sanitize_chr :: "char \<Rightarrow> char" where
  "sanitize_chr c = (if is_word c then c else CHR ''_'')"

definition safe_name :: "string \<Rightarrow> string" where
  "safe_name n = lower (re_sub False not_identifier_chr ''_'' n None)"

definition template :: "string \<Rightarrow> string" where
  "template safe =
     ''# skills/'' @ safe @ ''.py'' @ [CHR 0x0A]
     @ ''NAME = '' @ [CHR 0x22] @ safe @ [CHR 0x22, CHR 0x0A]
     @ ''DESCRIPTION = '' @ [CHR 0x22] @ ''Describe what '' @ safe @ '' does.'' @ [CHR 0x22, CHR 0x0A]
     @ ''TRIGGERS = [r'' @ [CHR 0x22, CHR 0x5C, CHR 0x5C] @ ''b'' @ safe @ [CHR 0x5C, CHR 0x5C] @ ''b''
         @ [CHR 0x22] @ '']  # adjust as needed'' @ [CHR 0x0A, CHR 0x0A]
     @ ''def run(query: str, context: dict) -> str:'' @ [CHR 0x0A]
     @ ''    # implement your logic here'' @ [CHR 0x0A]
     @ ''    return '' @ [CHR 0x22] @ ''Hello from '' @ safe @ ''!'' @ [CHR 0x22, CHR 0x0A]"

definition path_exists :: "string \<Rightarrow> skills_fs \<Rightarrow> bool" where
  "path_exists fname fs = (map_of (py_files fs) fname \<noteq> None)"

definition scaffold :: "string \<Rightarrow> skills_fs \<Rightarrow> string \<times> skills_fs" where
  "scaffold n fs =
     (let safe = safe_name n; path = safe @ ''.py''
      in if path_exists path fs then (path, fs)
         else (path, fs\<lparr>py_files := py_files fs @ [(path, template safe)]\<rparr>))"

section \<open>Answering from memory (memory_bridge.py)\<close>

text \<open>Python's truth test on an \<open>Optional[str]\<close>: neither \<open>None\<close> nor the empty string.\<close>

definition truthy :: "string option \<Rightarrow> bool" where
  "truthy v = (case v of None \<Rightarrow> False | Some t \<Rightarrow> t \<noteq> [])"

definition what_is_my :: "regex list" where
  "what_is_my =
     [WordB, Str ''what'', Alt (Str ([CHR 0x27] @ ''s'')) (Str '' is''), Plus Sp, Str ''my'', Plus Sp]"

text \<open>
  \<open>QMAP\<close>: the pattern, the fact key, and the reply template as the text before and
  after its \<open>{v}\<close>.
\<close>

definition QMAP :: "(regex \<times> string \<times> string \<times> string) list" where
  "QMAP =
     [(Seqs (what_is_my @ [Str ''name'', WordB]), ''user_name'', ''Your name is '', ''.''),
      (Seqs [WordB, Str ''who'', Plus Sp, Str ''am'', Plus Sp, Str ''i'', WordB],
         ''user_name'', ''You are '', ''.''),
      (Seqs [WordB, Str ''where'', Plus Sp,
             Alt (Seqs [Str ''do'', Plus Sp, Str ''i'', Plus Sp, Str ''live''])
                 (Seqs [Str ''is'', Plus Sp, Str ''my'', Plus Sp, Str ''home'']), WordB],
         ''home_city'', ''You live in '', ''.''),
      (Seqs (what_is_my @ [Str ''role'', WordB]), ''role'', ''Your role is '', ''.''),
      (Seqs (what_is_my @ [Str ''favorite'', Plus Sp, Str ''color'', WordB]),
         ''favorite_color'', ''Your favorite color is '', ''.''),
      (Seqs (what_is_my @ [Str ''coffee'', Plus Sp, Str ''order'', WordB]),
         ''coffee_order'', ''Your coffee order is '', ''.''),
      (Seqs (what_is_my @ [Str ''timezone'', WordB]), ''timezone'', ''Your timezone is '', ''.'')]"

definition generic_question :: regex where
  "generic_question =
     Seqs (what_is_my @
       [Group 1 (Seq (Cls False [CRange (CHR ''a'') (CHR ''z'')])
                     (Rep 1 40 (Cls False [CRange (CHR ''a'') (CHR ''z''), CChar (CHR '' ''),
                                           CChar (CHR ''_''), CChar (CHR ''-'')]))),
        Opt (Lit (CHR ''?'')), Eol])"

definition dont_have :: "string \<Rightarrow> string" where
  "dont_have key = ''I don'' @ [CHR 0x27] @ ''t have your '' @ replace_chr (CHR ''_'') (CHR '' '') key @ '' yet.''"

fun qmap_answer :: "(regex \<times> string \<times> string \<times> string) list \<Rightarrow> disk \<Rightarrow> string
    \<Rightarrow> (error + string) option" where
  "qmap_answer [] d s = None"
| "qmap_answer ((rx, key, before, after) # qs) d s =
     (if re_search False rx s \<noteq> None
      then Some (case recall key d of
                   Inl e \<Rightarrow> Inl e
                 | Inr val \<Rightarrow> Inr (if truthy val then before @ the val @ after else dont_have key))
      else qmap_answer qs d s)"

definition memory_answer :: "disk \<Rightarrow> string \<Rightarrow> error + string option" where
  "memory_answer d txt =
     (let s = strip (lower txt) in
      case qmap_answer QMAP d s of
        Some (Inl e) \<Rightarrow> Inl e
      | Some (Inr reply) \<Rightarrow> Inr (Some reply)
      | None \<Rightarrow>
          (case re_search False generic_question s of
             None \<Rightarrow> Inr None
           | Some m \<Rightarrow>
               let key = replace_chr (CHR '' '') (CHR ''_'')
                           (replace_chr (CHR ''-'') (CHR ''_'') (lower (strip (mgroup 1 m))))
               in (case recall key d of
                     Inl e \<Rightarrow> Inl e
                   | Inr v1 \<Rightarrow>
                       (case (if truthy v1 then Inr v1 else recall (''favorite_'' @ key) d) of
                          Inl e \<Rightarrow> Inl e
                        | Inr val \<Rightarrow>
                            Inr (Some (if truthy val
                                       then ''Your '' @ replace_chr (CHR ''_'') (CHR '' '') key
                                              @ '' is '' @ the val @ ''.''
                                       else dont_have key))))))"

definition PREFERRED_FACT_KEYS :: "string list" where
  "PREFERRED_FACT_KEYS =
     [''user_name'', ''role'', ''home_city'', ''home_country'', ''weather_default'', ''units'',
      ''favorite_color'', ''coffee_order'', ''timezone'']"

fun preferred_picks :: "string list \<Rightarrow> disk \<Rightarrow> error + (string \<times> string) list" where
  "preferred_picks [] d = Inr []"
| "preferred_picks (k # ks) d =
     (case recall k d of
        Inl e \<Rightarrow> Inl e
      | Inr v \<Rightarrow>
          (case preferred_picks ks d of
             Inl e \<Rightarrow> Inl e
           | Inr ps \<Rightarrow> Inr (if truthy v then (k, the v) # ps else ps)))"

text \<open>The loop that drops repeated keys and stops once \<open>limit\<close> facts are out.\<close>

fun dedupe_clamp :: "nat \<Rightarrow> (string \<times> string) list \<Rightarrow> (string \<times> string) list \<Rightarrow> (string \<times> string) list" where
  "dedupe_clamp limit [] out = out"
| "dedupe_clamp limit ((k, v) # ps) out =
     (if k \<in> set (map fst out) then dedupe_clamp limit ps out
      else if length (out @ [(k, v)]) \<ge> limit then out @ [(k, v)]
      else dedupe_clamp limit ps (out @ [(k, v)]))"

definition relevant_facts :: "disk \<Rightarrow> string \<Rightarrow> nat \<Rightarrow> error + (string \<times> string) list" where
  "relevant_facts d txt limit =
     (case facts_like [] d of
        Inl e \<Rightarrow> Inl e
      | Inr all_facts \<Rightarrow>
          if all_facts = [] then Inr []
          else
            let s = lower txt;
                picks = filter (\<lambda>(k, v). list_ex (\<lambda>w. contains w s) (split_chr (CHR ''_'') (lower k)))
                          all_facts
            in (case (if picks = [] then preferred_picks PREFERRED_FACT_KEYS d else Inr picks) of
                  Inl e \<Rightarrow> Inl e
                | Inr picks' \<Rightarrow> Inr (dedupe_clamp limit picks' [])))"

definition format_fact_context :: "(string \<times> string) list \<Rightarrow> string" where
  "format_fact_context fs =
     (if fs = [] then []
      else ''Known user facts:'' @ [CHR 0x0A]
           @ join [CHR 0x0A]
               (map (\<lambda>(k, v). ''- '' @ title (replace_chr (CHR ''_'') (CHR '' '') k) @ '': '' @ v) fs))"

section \<open>The legacy rule table (router.py)\<close>

definition RULES :: "(string \<times> regex) list" where
  "RULES =
     [(''weather'',
       Seqs [WordB,
             Group 1 (Alts [Str ''weather'', Str ''forecast'', Seq (Str ''temp'') (Opt (Str ''erature'')),
                            Str ''rain'', Str ''wind'', Str ''snow'', Str ''humidity'', Str ''humid'']),
             WordB]),
      (''news'',
       Seqs [WordB,
             Group 1 (Alts [Str ''news'', Seq (Str ''headline'') (Opt (Cls False [CChar (CHR ''s'')])),
                            Seq (Str ''top stor'') (Alt (Str ''y'') (Str ''ies'')), Str ''breaking'']),
             WordB]),
      (''search'',
       Seqs [WordB,
             Group 1 (Alts [Str ''search'', Seqs [Str ''look'', Star Sp, Str ''up''], Str ''lookup'',
                            Str ''find'', Str ''query'']),
             WordB]),
      (''remember'', Seqs [Bol, Star Sp, Str ''remember'', Star Sp, Lit (CHR '':'')])]"

text \<open>\<open>route\<close> of router.py (imported by the loop as \<open>legacy_route\<close>): the name of the first rule that matches.\<close>

fun legacy_route_rules :: "(string \<times> regex) list \<Rightarrow> string \<Rightarrow> (string \<times> rematch) option" where
  "legacy_route_rules [] s = None"
| "legacy_route_rules ((n, rx) # rules) s =
     (case re_search True rx s of
        Some m \<Rightarrow> Some (n, m)
      | None \<Rightarrow> legacy_route_rules rules s)"

definition legacy_route :: "string \<Rightarrow> (string \<times> rematch) option" where
  "legacy_route txt = legacy_route_rules RULES txt"

section \<open>The wake word (wake.py)\<close>

record wakeword =
  wake :: string
  sleep_terms :: "string list"

definition wake_rx :: "wakeword \<Rightarrow> regex" where
  "wake_rx ww = Seqs [WordB, Str (lower (wake ww)), WordB]"

definition heard_wake :: "wakeword \<Rightarrow> string \<Rightarrow> bool" where
  "heard_wake ww txt = (re_search True (wake_rx ww) txt \<noteq> None)"

definition strip_wake :: "wakeword \<Rightarrow> string \<Rightarrow> string" where
  "strip_wake ww txt =
     strip_chars ('' ,.:;!?-'' @ [CHR 0xE2, CHR 0x09]) (re_sub True (wake_rx ww) [] txt (Some 1))"

definition heard_sleep :: "wakeword \<Rightarrow> string \<Rightarrow> bool" where
  "heard_sleep ww txt =
     list_ex (\<lambda>t. re_search True (Seqs [WordB, Str (lower t), WordB]) txt \<noteq> None) (sleep_terms ww)"

section \<open>The context and \<open>say\<close> (context.py)\<close>

text \<open>
  What one pass of the loop does to the outside, in order: text written to the terminal,
  speech, and the calls to the routers, the skills and the language-model session.
\<close>

datatype event =
    Print string
  | PrintTtsError
  | Speak string
  | ClearScreen
  | Route string
  | RunSkill string string
  | PrintSkillError string
  | LegacyRoute string
  | RunLegacy string string
  | PrintLegacyError string
  | Stream string
  | Send string
  | Reset

text \<open>
  The collaborators the loop is handed, with \<open>'l\<close> the state of the language-model
  session: whether \<open>speak\<close> raises on a text, the session's \<open>stream\<close> (the chunks it
  yields), \<open>send\<close> and \<open>reset\<close>, the import of a skill file, and the call
  \<open>registry.run(name, query, context)\<close> that the loop reaches through a dynamic import
  (\<open>None\<close> when anything in that expression raises). The session is the interface
  \<open>llm_respond\<close> calls without a \<open>try\<close>: \<open>stream\<close> and \<open>send\<close> of llm.py catch every
  exception of the backend themselves (a failed stream ends early, a failed send returns
  the empty string), whereas \<open>reset\<close> calls \<open>_new_chat\<close> unguarded, so it yields the fresh
  session or, with \<open>None\<close>, raises what the backend raised.
\<close>

record 'l env =
  speak_raises :: "string \<Rightarrow> bool"
  llm_stream :: "'l \<Rightarrow> string \<Rightarrow> string list \<times> 'l"
  llm_send :: "'l \<Rightarrow> string \<Rightarrow> string \<times> 'l"
  llm_reset :: "'l \<Rightarrow> 'l option"
  import_module :: importer
  registry_run :: "string \<Rightarrow> string \<Rightarrow> disk \<Rightarrow> string option \<times> disk"

text \<open>
  The state a pass works on: the fields of \<open>Ctx\<close> (the session, the store's file, the
  loaded skills, the router, the wake word), the skills directory, the loop's \<open>awake\<close>
  flag, and the events so far.
\<close>

record 'l world =
  llm :: 'l
  mem :: disk
  skills :: "(string \<times> loaded_skill) list"
  router :: plugin_router
  wakew :: wakeword
  skills_dir :: skills_fs
  awake :: bool
  out :: "event list"

definition emit :: "event list \<Rightarrow> 'l world \<Rightarrow> 'l world" where
  "emit es w = w\<lparr>out := out w @ es\<rparr>"

definition nl :: string where
  "nl = [CHR 0x0A]"

text \<open>\<open>TTS.speak\<close> returns at once on an empty text; otherwise it speaks or raises.\<close>

definition tts_speak :: "'l env \<Rightarrow> string \<Rightarrow> 'l world \<Rightarrow> 'l world" where
  "tts_speak env t w =
     (if t = [] then w
      else if speak_raises env t then emit [PrintTtsError] w
      else emit [Speak t] w)"

text \<open>What one \<open>speak\<close> call inside \<open>try\<close> adds to the events.\<close>

definition speech :: "'l env \<Rightarrow> string \<Rightarrow> event list" where
  "speech env t = (if t = [] then [] else if speak_raises env t then [PrintTtsError] else [Speak t])"

definition say :: "'l env \<Rightarrow> string \<Rightarrow> 'l world \<Rightarrow> (error + unit) \<times> 'l world" where
  "say env t w =
     (let w1 = emit [Print (''Orion: '' @ t @ nl)] w;
          w2 = tts_speak env t w1
      in case append_conversation None (Some t) (mem w2) of
           Inl e \<Rightarrow> (Inl e, w2)
         | Inr d \<Rightarrow> (Inr (), w2\<lparr>mem := d\<rparr>))"

section \<open>The reply of the language model (llm_path.py)\<close>

text \<open>
  \<open>llm_respond\<close> returns nothing in the source; the model hands back the final value of
  its local \<open>reply\<close>, the text that is spoken and logged. The events record what is
  printed: the chunks of the stream as they arrive, and the line \<open>Orion: reply\<close> only
  when no chunk was printed.
\<close>

definition apology :: string where
  "apology = ''Sorry, I couldn'' @ [CHR 0x27] @ ''t generate a response just now. Please try again.''"

definition llm_respond :: "'l env \<Rightarrow> string \<Rightarrow> 'l world \<Rightarrow> (error + string) \<times> 'l world" where
  "llm_respond env u w =
     (case relevant_facts (mem w) u 6 of
        Inl e \<Rightarrow> (Inl e, w)
      | Inr fs \<Rightarrow>
          let preface = format_fact_context fs;
              user_for_llm = (if preface \<noteq> [] then preface @ nl @ nl @ ''User: '' @ u else u);
              (chunks, l1) = llm_stream env (llm w) user_for_llm;
              full = filter (\<lambda>c. c \<noteq> []) chunks;
              printed_stream = (full \<noteq> []);
              w1 = emit (Stream user_for_llm #
                         (if printed_stream then Print ''Orion: '' # map Print full @ [Print nl] else []))
                     (w\<lparr>llm := l1\<rparr>);
              reply1 = strip (concat full);
              (reply2, w2) =
                 (if reply1 = []
                  then (let (r, l2) = llm_send env (llm w1) user_for_llm
                        in (r, emit [Send user_for_llm] (w1\<lparr>llm := l2\<rparr>)))
                  else (reply1, w1));
              retried =
                 (if reply2 = []
                  then (case llm_reset env (llm w2) of
                          None \<Rightarrow> Inl (emit [Reset] w2)
                        | Some l3 \<Rightarrow>
                            let (r, l4) = llm_send env l3 user_for_llm
                            in Inr (r, emit [Reset, Send user_for_llm] (w2\<lparr>llm := l4\<rparr>)))
                  else Inr (reply2, w2))
          in case retried of
               Inl w3 \<Rightarrow> (Inl BackendError, w3)
             | Inr (reply3, w3) \<Rightarrow>
                 let reply = (if reply3 = [] then apology else reply3);
                     w4 = (if \<not> printed_stream
                           then emit [Print (''Orion: '' @ reply @ nl)] w3 else w3);
                     w5 = tts_speak env reply w4
                 in case append_conversation None (Some reply) (mem w5) of
                      Inl e \<Rightarrow> (Inl e, w5)
                    | Inr d \<Rightarrow> (Inr reply, w5\<lparr>mem := d\<rparr>))"

text \<open>The non-empty chunks of a stream, the list \<open>full\<close> of \<open>llm_respond\<close>.\<close>

definition streamed_chunks :: "'l env \<Rightarrow> 'l \<Rightarrow> string \<Rightarrow> string list" where
  "streamed_chunks env l x = filter (\<lambda>c. c \<noteq> []) (fst (llm_stream env l x))"

text \<open>
  The stages in one expression, for comparison with \<open>llm_respond\<close>: the reply, the calls
  made on the session in their order, and the session they leave; \<open>None\<close> when \<open>reset\<close>
  is reached and raises. The streamed text is the concatenation of the non-empty chunks
  with the white space around it removed, as line 26 of llm_path.py has it, so a stream
  of white space goes on to \<open>send\<close>.
\<close>

definition fallback_chain :: "'l env \<Rightarrow> 'l \<Rightarrow> string \<Rightarrow> (string \<times> event list \<times> 'l) option" where
  "fallback_chain env l x =
     (let (chunks, l1) = llm_stream env l x;
          streamed = strip (concat (filter (\<lambda>c. c \<noteq> []) chunks))
      in if streamed \<noteq> [] then Some (streamed, [Stream x], l1)
         else
           let (sent, l2) = llm_send env l1 x
           in if sent \<noteq> [] then Some (sent, [Stream x, Send x], l2)
              else
                (case llm_reset env l2 of
                   None \<Rightarrow> None
                 | Some l2' \<Rightarrow>
                     let (resent, l3) = llm_send env l2' x
                     in if resent \<noteq> [] then Some (resent, [Stream x, Send x, Reset, Send x], l3)
                        else Some (apology, [Stream x, Send x, Reset, Send x], l3)))"

text \<open>
  The stages as the specification words them: the text of the stream is the
  concatenation of its non-empty chunks, and it is the reply unless it is empty.
\<close>

definition spec_stream_stage :: "'l env \<Rightarrow> 'l \<Rightarrow> string \<Rightarrow> string option" where
  "spec_stream_stage env l x =
     (let text = concat (filter (\<lambda>c. c \<noteq> []) (fst (llm_stream env l x)))
      in if text \<noteq> [] then Some text else None)"

text \<open>The text handed to the session: the utterance, with the known facts in front when there are any.\<close>

definition llm_prompt :: "disk \<Rightarrow> string \<Rightarrow> string" where
  "llm_prompt d u =
     (case relevant_facts d u 6 of
        Inl _ \<Rightarrow> u
      | Inr fs \<Rightarrow>
          let preface = format_fact_context fs
          in if preface \<noteq> [] then preface @ nl @ nl @ ''User: '' @ u else u)"

fun is_llm_call :: "event \<Rightarrow> bool" where
  "is_llm_call (Stream x) = True"
| "is_llm_call (Send x) = True"
| "is_llm_call Reset = True"
| "is_llm_call e = False"

fun is_speech :: "event \<Rightarrow> bool" where
  "is_speech (Speak t) = True"
| "is_speech PrintTtsError = True"
| "is_speech e = False"

text \<open>
  The text that the \<open>Print\<close> events wrote, in the order they wrote it; the report of a
  failed \<open>speak\<close> is an event of its own and no part of it.
\<close>

fun print_text :: "event \<Rightarrow> string" where
  "print_text (Print t) = t"
| "print_text e = []"

definition printed :: "event list \<Rightarrow> string" where
  "printed es = concat (map print_text es)"

text \<open>The events a pass added to those of the state it started from.\<close>

definition new_events :: "'l world \<Rightarrow> 'l world \<Rightarrow> event list" where
  "new_events w w' = drop (length (out w)) (out w')"

section \<open>The admin commands (admin.py)\<close>

definition ADMIN_RELOAD_RE :: regex where
  "ADMIN_RELOAD_RE =
     Seqs [Bol, Group 1 (Alts [Str ''reload'', Str ''reload it'', Str ''reload now'',
                               Str ''refresh'', Str ''refresh it'', Str ''refresh now'']),
           Opt (Cls False [CChar (CHR ''.''), CChar (CHR ''!'')]), Eol]"

definition LIST_SKILLS_RE :: regex where
  "LIST_SKILLS_RE =
     Seqs [Bol, Group 1 (Alts [Str ''list skills'', Str ''show skills'', Str ''what skills'',
                               Seq (Str ''skills'') (Opt (Lit (CHR ''?'')))]),
           Opt (Cls False [CChar (CHR ''.''), CChar (CHR ''!'')]), Eol]"

definition SKILL_CMD_RE :: regex where
  "SKILL_CMD_RE =
     Seqs [WordB, Str ''skill'', Opt (Lit (CHR ''s'')), WordB,
           Plus (Cls False [CChar (CHR '',''), CSpace, CChar (CHR '':''), CChar (CHR ''-'')]),
           Group 1 (Star AnyChr), Eol]"

definition key_chars :: regex where
  "key_chars =
     Cls False [CRange (CHR ''a'') (CHR ''z''), CRange (CHR ''0'') (CHR ''9''), CChar (CHR ''_''),
                CChar (CHR '' ''), CChar (CHR ''-'')]"

definition MEM_LIST_RE :: regex where
  "MEM_LIST_RE =
     Seqs [Bol, Group 1 (Alts [Str ''list memory'', Str ''show memory'', Str ''dump memory'',
                               Str ''memory list'']),
           Opt (Cls False [CChar (CHR ''.''), CChar (CHR ''!'')]), Eol]"

definition MEM_GET_RE :: regex where
  "MEM_GET_RE =
     Seqs [Bol, Str ''memory get'', Plus Sp, Group 1 (Rep 1 40 key_chars),
           Opt (Cls False [CChar (CHR ''.''), CChar (CHR ''!'')]), Eol]"

definition MEM_SET_RE :: regex where
  "MEM_SET_RE =
     Seqs [Bol, Str ''memory set'', Plus Sp, Group 1 (Rep 1 40 key_chars), Star Sp,
           Lit (CHR ''=''), Star Sp, Group 2 (Plus AnyChr), Eol]"

text \<open>The two substitutions that tidy a skill command: trailing filler words, and misheard \<open>scaffold\<close>.\<close>

definition filler_rx :: regex where
  "filler_rx =
     Seqs [WordB, Group 1 (Alts [Str ''it'', Str ''please'', Str ''now'',
                                 Seq (Str ''thank'') (Opt (Lit (CHR ''s'')))]), WordB, Eol]"

definition scaffold_rx :: regex where
  "scaffold_rx = Seqs [Bol, Group 1 (Alts [Str ''gaffled'', Str ''scaf'', Str ''scafold'']), WordB]"

definition bullet :: string where
  "bullet = [CHR 0xE2, CHR 0x80, CHR 0xA2]"

definition dash :: string where
  "dash = [CHR 0xE2, CHR 0x80, CHR 0x94]"

definition usage :: string where
  "usage = ''Usage: skill list | skill reload | skill enable <name> | skill disable <name> | skill scaffold <name>''"

definition reload_skills :: "'l env \<Rightarrow> 'l world \<Rightarrow> string \<times> 'l world" where
  "reload_skills env w =
     (let sks = load_skills (import_module env) (skills_dir w)
      in (''Reloaded skills: '' @ (if sks \<noteq> [] then join '', '' (map fst sks) else ''(none)''),
          w\<lparr>skills := sks, router := PluginRouter sks\<rparr>))"

definition installed_skills :: "'l env \<Rightarrow> 'l world \<Rightarrow> string" where
  "installed_skills env w =
     (let rows = map (\<lambda>(n, en, ds). bullet @ '' '' @ n @ '' ['' @ (if en then ''on'' else ''off'')
                                     @ ''] '' @ dash @ '' '' @ ds)
                   (list_all_skills (import_module env) (skills_dir w))
      in ''Installed skills:'' @ nl @ (if rows \<noteq> [] then join nl rows else ''(none)''))"

text \<open>\<open>say(ctx, text); return True\<close>.\<close>

definition say_handled :: "'l env \<Rightarrow> string \<Rightarrow> 'l world \<Rightarrow> (error + bool) \<times> 'l world" where
  "say_handled env t w =
     (case say env t w of
        (Inl e, w') \<Rightarrow> (Inl e, w')
      | (Inr _, w') \<Rightarrow> (Inr True, w'))"

text \<open>\<open>cmd.split(" ", 1)[1]\<close>, for a \<open>cmd\<close> that holds a space: the text after the first one.\<close>

definition after_space :: "string \<Rightarrow> string" where
  "after_space cmd = (case snd (split_once (CHR '' '') cmd) of None \<Rightarrow> [] | Some r \<Rightarrow> r)"

definition skill_command :: "'l env \<Rightarrow> string \<Rightarrow> 'l world \<Rightarrow> (error + bool) \<times> 'l world" where
  "skill_command env cmd w =
     (if cmd = ''list'' then say_handled env (installed_skills env w) w
      else if cmd = ''reload'' then (let (msg, w1) = reload_skills env w in say_handled env msg w1)
      else if startswith cmd ''enable '' then
        (let (msg, fs) = set_enabled (strip (after_space cmd)) True (skills_dir w)
         in say_handled env msg (w\<lparr>skills_dir := fs\<rparr>))
      else if startswith cmd ''disable '' then
        (let (msg, fs) = set_enabled (strip (after_space cmd)) False (skills_dir w)
         in say_handled env msg (w\<lparr>skills_dir := fs\<rparr>))
      else if startswith cmd ''scaffold '' then
        (if snd (split_once (CHR '' '') cmd) = None \<or> strip (after_space cmd) = []
         then say_handled env ''Usage: skill scaffold <name>'' w
         else (let (p, fs) = scaffold (strip (after_space cmd)) (skills_dir w)
               in say_handled env
                    (''Created '' @ p @ ''. Edit it, then say '' @ [CHR 0x27] @ ''skill reload''
                       @ [CHR 0x27] @ ''.'')
                    (w\<lparr>skills_dir := fs\<rparr>)))
      else say_handled env usage w)"

definition handle_skill_admin :: "'l env \<Rightarrow> string \<Rightarrow> 'l world \<Rightarrow> (error + bool) \<times> 'l world" where
  "handle_skill_admin env low w =
     (if re_fullmatch True ADMIN_RELOAD_RE low \<noteq> None
      then (let (msg, w1) = reload_skills env w in say_handled env msg w1)
      else if re_fullmatch True LIST_SKILLS_RE low \<noteq> None
      then say_handled env (installed_skills env w) w
      else (case re_search True SKILL_CMD_RE low of
              None \<Rightarrow> (Inr False, w)
            | Some m \<Rightarrow>
                let cmd1 = rstrip_chars ''.!,?'' (strip (mgroup 1 m));
                    cmd2 = strip (re_sub False filler_rx [] cmd1 None);
                    cmd = re_sub False scaffold_rx ''scaffold'' cmd2 None
                in skill_command env cmd w))"

text \<open>The key text of a memory command: stripped, lower-cased, spaces and hyphens to underscores.\<close>

definition normalize_key :: "string \<Rightarrow> string" where
  "normalize_key g = replace_chr (CHR ''-'') (CHR ''_'') (replace_chr (CHR '' '') (CHR ''_'') (lower (strip g)))"

definition key_title :: "string \<Rightarrow> string" where
  "key_title key = title (replace_chr (CHR ''_'') (CHR '' '') key)"

definition memory_empty_help :: string where
  "memory_empty_help =
     ''Your memory is empty. Try adding some:'' @ nl
     @ ''  remember: user_name = Benjamin'' @ nl
     @ ''  remember: favorite_color = navy'' @ nl
     @ ''  remember: weather_default = Marble Falls, TX, US''"

definition handle_memory_admin :: "'l env \<Rightarrow> string \<Rightarrow> 'l world \<Rightarrow> (error + bool) \<times> 'l world" where
  "handle_memory_admin env low w =
     (if re_fullmatch True MEM_LIST_RE low \<noteq> None then
        (case facts_like [] (mem w) of
           Inl e \<Rightarrow> (Inl e, w)
         | Inr pairs \<Rightarrow>
             if pairs \<noteq> []
             then say_handled env
                    (''Memory facts:'' @ nl
                     @ join nl (take 50 (map (\<lambda>(k, v). bullet @ '' '' @ key_title k @ '': '' @ v)
                                           (sort pairs)))) w
             else say_handled env memory_empty_help w)
      else (case re_fullmatch True MEM_GET_RE low of
              Some m \<Rightarrow>
                (let key = normalize_key (mgroup 1 m) in
                 case recall key (mem w) of
                   Inl e \<Rightarrow> (Inl e, w)
                 | Inr v1 \<Rightarrow>
                     (case (if truthy v1 then Inr v1 else recall (''favorite_'' @ key) (mem w)) of
                        Inl e \<Rightarrow> (Inl e, w)
                      | Inr val \<Rightarrow>
                          say_handled env
                            (if truthy val then key_title key @ '': '' @ the val
                             else ''No value saved for '' @ key_title key @ ''.'') w))
            | None \<Rightarrow>
                (case re_fullmatch True MEM_SET_RE low of
                   Some m \<Rightarrow>
                     (let key = normalize_key (mgroup 1 m); val = strip (mgroup 2 m) in
                      case remember key val (mem w) of
                        Inl e \<Rightarrow> (Inl e, w)
                      | Inr d \<Rightarrow> say_handled env (''Saved '' @ key_title key @ '': '' @ val) (w\<lparr>mem := d\<rparr>))
                 | None \<Rightarrow> (Inr False, w))))"

section \<open>One pass of the loop (runtime.py)\<close>

datatype control = Continue | Break

definition continue_after :: "(error + 'a) \<times> 'l world \<Rightarrow> (error + control) \<times> 'l world" where
  "continue_after r = (case r of (Inl e, w) \<Rightarrow> (Inl e, w) | (Inr _, w) \<Rightarrow> (Inr Continue, w))"

text \<open>The last stage: the language model.\<close>

definition llm_stage :: "'l env \<Rightarrow> string \<Rightarrow> 'l world \<Rightarrow> (error + control) \<times> 'l world" where
  "llm_stage env u w = continue_after (llm_respond env u w)"

text \<open>
  The legacy stage. Whatever raises inside its \<open>try\<close> (the registry call, or \<open>say\<close>) is
  reported and the pass goes on to the language model.
\<close>

definition legacy_stage :: "'l env \<Rightarrow> string \<Rightarrow> 'l world \<Rightarrow> (error + control) \<times> 'l world" where
  "legacy_stage env u w =
     (let w1 = emit [LegacyRoute u] w in
      case legacy_route u of
        None \<Rightarrow> llm_stage env u w1
      | Some (n, m) \<Rightarrow>
          (let (res, d) = registry_run env n u (mem w1);
               w2 = emit [RunLegacy n u] (w1\<lparr>mem := d\<rparr>)
           in case res of
                None \<Rightarrow> llm_stage env u (emit [PrintLegacyError n] w2)
              | Some result \<Rightarrow>
                  (case say env result w2 of
                     (Inr _, w3) \<Rightarrow> (Inr Continue, w3)
                   | (Inl e, w3) \<Rightarrow> llm_stage env u (emit [PrintLegacyError n] w3))))"

text \<open>The plugin stage: the primary router, then the matched skill inside its \<open>try\<close>.\<close>

definition plugin_stage :: "'l env \<Rightarrow> string \<Rightarrow> 'l world \<Rightarrow> (error + control) \<times> 'l world" where
  "plugin_stage env u w =
     (let w1 = emit [Route u] w in
      case pr_route (router w1) u of
        None \<Rightarrow> legacy_stage env u w1
      | Some sk \<Rightarrow>
          (let (res, d) = sk_run sk u (mem w1);
               w2 = emit [RunSkill (sk_name sk) u] (w1\<lparr>mem := d\<rparr>)
           in case res of
                None \<Rightarrow> legacy_stage env u (emit [PrintSkillError (sk_name sk)] w2)
              | Some result \<Rightarrow>
                  (case say env result w2 of
                     (Inr _, w3) \<Rightarrow> (Inr Continue, w3)
                   | (Inl e, w3) \<Rightarrow> legacy_stage env u (emit [PrintSkillError (sk_name sk)] w3))))"

definition wake_prefix_rx :: "wakeword \<Rightarrow> regex" where
  "wake_prefix_rx ww =
     Seqs [Bol, Star Sp, Str (wake ww),
           Plus (Cls False [CSpace, CChar (CHR '',''), CChar (CHR '':''), CChar (CHR ''-'')]), Star Sp]"

text \<open>\<open># Process command\<close>: from the wake-word prefix to the last stage.\<close>

definition command_text :: "wakeword \<Rightarrow> string \<Rightarrow> string" where
  "command_text ww raw =
     (if startswith (lower raw) (lower (wake ww))
      then strip (re_sub True (wake_prefix_rx ww) [] raw None) else raw)"

definition process_command :: "'l env \<Rightarrow> string \<Rightarrow> 'l world \<Rightarrow> (error + control) \<times> 'l world" where
  "process_command env raw w =
     (let u = command_text (wakew w) raw;
          low = strip (lower u)
      in case handle_skill_admin env low w of
           (Inl e, w1) \<Rightarrow> (Inl e, w1)
         | (Inr True, w1) \<Rightarrow> (Inr Continue, w1)
         | (Inr False, w1) \<Rightarrow>
             (case handle_memory_admin env low w1 of
                (Inl e, w2) \<Rightarrow> (Inl e, w2)
              | (Inr True, w2) \<Rightarrow> (Inr Continue, w2)
              | (Inr False, w2) \<Rightarrow>
                  (case memory_answer (mem w2) u of
                     Inl e \<Rightarrow> (Inl e, w2)
                   | Inr ans \<Rightarrow>
                       if truthy ans then continue_after (say env (the ans) w2)
                       else (case append_conversation (Some u) None (mem w2) of
                               Inl e \<Rightarrow> (Inl e, w2)
                             | Inr d \<Rightarrow> plugin_stage env u (w2\<lparr>mem := d\<rparr>)))))"

text \<open>
  One pass of \<open>while True\<close>, from \<open>if not raw\<close> on, for the utterance \<open>raw\<close> that the
  microphone or the keyboard gave.
\<close>

definition run_pass :: "'l env \<Rightarrow> string \<Rightarrow> 'l world \<Rightarrow> (error + control) \<times> 'l world" where
  "run_pass env raw w =
     (if raw = [] then (Inr Continue, w)
      else
        let norm = strip (lower raw) in
        if norm \<in> set [''clear'', ''clear.''] then (Inr Continue, emit [ClearScreen] w)
        else if norm = ''close.''
        then (Inr Break, emit [Print ([CHR 0xF0, CHR 0x9F, CHR 0x91, CHR 0x8B] @ '' Closing program...'' @ nl)] w)
        else if \<not> awake w then
          (if heard_wake (wakew w) norm then
             (let leftover = strip_wake (wakew w) raw;
                  w1 = emit [Print (''[Wake] Orion is now AWAKE'' @ nl)] (w\<lparr>awake := True\<rparr>)
              in if leftover = []
                 then continue_after (say env (''I'' @ [CHR 0x27] @ ''m listening.'') w1)
                 else process_command env leftover w1)
           else (Inr Continue, w))
        else if heard_sleep (wakew w) norm then
          continue_after (say env ''Going to sleep.''
                            (emit [Print (''[Wake] Orion is now SLEEPING'' @ nl)] (w\<lparr>awake := False\<rparr>)))
        else process_command env raw w)"

section \<open>What a pass leaves in the log\<close>

text \<open>
  The utterance was answered before the routing stages: by the skill-admin handler, by the
  memory-admin handler, or by the memory fast path.
\<close>

definition consumed_early :: "'l env \<Rightarrow> string \<Rightarrow> 'l world \<Rightarrow> bool" where
  "consumed_early env u w =
     (let low = strip (lower u) in
      case handle_skill_admin env low w of
        (Inl e, w1) \<Rightarrow> False
      | (Inr True, w1) \<Rightarrow> True
      | (Inr False, w1) \<Rightarrow>
          (case handle_memory_admin env low w1 of
             (Inl e, w2) \<Rightarrow> False
           | (Inr True, w2) \<Rightarrow> True
           | (Inr False, w2) \<Rightarrow>
               (case memory_answer (mem w2) u of Inl e \<Rightarrow> False | Inr ans \<Rightarrow> truthy ans)))"

text \<open>The log of \<open>d'\<close> is the log of \<open>d\<close> with one more turn, a bot turn (and the cap applied).\<close>

definition bot_logged :: "disk \<Rightarrow> disk \<Rightarrow> bool" where
  "bot_logged d d' =
     (case stored_turns d' of
        [] \<Rightarrow> False
      | t # ts \<Rightarrow>
          user (last (t # ts)) = None \<and> bot (last (t # ts)) \<noteq> None
          \<and> stored_turns d' = last_n MAX_CONVERSATIONS (stored_turns d @ [last (t # ts)]))"

text \<open>
  A handler's result that either raised or consumed the utterance, having added one bot
  turn to the log that \<open>w\<close> had.
\<close>

definition handled_logs_bot :: "'l world \<Rightarrow> (error + bool) \<times> 'l world \<Rightarrow> bool" where
  "handled_logs_bot w r =
     (case r of
        (Inl e, w') \<Rightarrow> True
      | (Inr b, w') \<Rightarrow> b \<and> bot_logged (mem w) (mem w'))"

text \<open>The latest turn of the log is a bot turn.\<close>

definition ends_with_bot_turn :: "disk \<Rightarrow> bool" where
  "ends_with_bot_turn d =
     (case stored_turns d of
        [] \<Rightarrow> False
      | t # ts \<Rightarrow> user (last (t # ts)) = None \<and> bot (last (t # ts)) \<noteq> None)"

section \<open>A concrete setting\<close>

text \<open>
  The defaults of wake.py, and collaborators for running the definitions on concrete
  input: a session that streams nothing and whose \<open>send\<close> answers only after a reset
  (its state counts the resets), a \<open>speak\<close> that works, no importable skill file, and a
  registry call that raises.
\<close>

definition default_wake :: wakeword where
  "default_wake =
     \<lparr>wake = ''orion'',
      sleep_terms = [''wake_close'', ''sleep'', ''go to sleep'', ''goodnight'', ''orion sleep'']\<rparr>"

definition example_env :: "nat env" where
  "example_env =
     \<lparr>speak_raises = (\<lambda>t. False),
      llm_stream = (\<lambda>l t. ([], l)),
      llm_send = (\<lambda>l t. (if l = 0 then [] else ''Hello'', l)),
      llm_reset = (\<lambda>l. Some (Suc l)),
      import_module = (\<lambda>n t. None),
      registry_run = (\<lambda>n q d. (None, d))\<rparr>"

definition example_world :: "nat world" where
  "example_world =
     \<lparr>llm = 0,
      mem = Json \<lparr>facts = Some [(''user_name'', ''Ben'')], conversations = Some []\<rparr>,
      skills = [], router = PluginRouter [], wakew = default_wake,
      skills_dir = \<lparr>py_files = [], enabled_state = NoState\<rparr>,
      awake = True, out = []\<rparr>"

text \<open>
  The skill of hello.py as its import yields it, and a skills directory that holds this
  one file.
\<close>

definition hello_run :: skill_fn where
  "hello_run query d =
     (case recall ''favorite_color'' d of
        Inl e \<Rightarrow> (None, d)
      | Inr fav \<Rightarrow>
          (Some (''Hello, Benjamin!''
                 @ (if truthy fav then '' Your favorite color is '' @ the fav @ ''.'' else [])), d))"

definition hello_module :: pymodule where
  "hello_module =
     \<lparr>m_run = Some hello_run,
      m_NAME = Some ''hello'',
      m_TRIGGERS = [Some (Seqs [WordB, Str ''hello'', WordB]),
                    Some (Seqs [WordB, Str ''hi orion'', WordB])],
      m_DESCRIPTION = Some ''Greets and shows a memory fact.''\<rparr>"

definition hello_import :: importer where
  "hello_import n txt = (if n = ''hello'' then Some hello_module else None)"

definition hello_fs :: skills_fs where
  "hello_fs = \<lparr>py_files = [(''hello.py'', ''# skills/hello.py'')], enabled_state = NoState\<rparr>"

text \<open>The utterance \<open>what's my name?\<close>.\<close>

definition whats_my_name :: string where
  "whats_my_name = ''what'' @ [CHR 0x27] @ ''s my name?''"

text \<open>A skill whose \<open>run\<close> raises, and the example state with this skill loaded.\<close>

definition boom_skill :: loaded_skill where
  "boom_skill =
     \<lparr>sk_name = ''boom'', sk_run = (\<lambda>q d. (None, d)),
      sk_patterns = [Seqs [WordB, Str ''boom'', WordB]], sk_description = ''boom skill''\<rparr>"

definition boom_world :: "nat world" where
  "boom_world =
     example_world\<lparr>skills := [(''boom'', boom_skill)], router := PluginRouter [(''boom'', boom_skill)]\<rparr>"

text \<open>The example state with the skill of hello.py loaded.\<close>

definition hello_world :: "nat world" where
  "hello_world =
     example_world\<lparr>skills := load_skills hello_import hello_fs,
                    router := PluginRouter (load_skills hello_import hello_fs),
                    skills_dir := hello_fs\<rparr>"


text \<open>
  Collaborators whose stream yields one chunk, a single space, whose \<open>send\<close> answers
  \<open>Hello\<close>, and whose \<open>speak\<close> raises.
\<close>

definition blank_stream_env :: "nat env" where
  "blank_stream_env =
     \<lparr>speak_raises = (\<lambda>t. True),
      llm_stream = (\<lambda>l t. ([[CHR 0x20]], l)),
      llm_send = (\<lambda>l t. (''Hello'', l)),
      llm_reset = (\<lambda>l. Some (Suc l)),
      import_module = (\<lambda>n t. None),
      registry_run = (\<lambda>n q d. (None, d))\<rparr>"

text \<open>
  The example state started on a \<open>memory.json\<close> that holds \<open>[]\<close>: the store is
  constructed on the file, as main.py does before the loop.
\<close>

definition list_file_world :: "nat world" where
  "list_file_world = example_world\<lparr>mem := Memory_init NotObject\<rparr>"

section \<open>Properties of the fact store\<close>

lemma last_n_last_n_append: "last_n n (last_n n xs @ ys) = last_n n (xs @ ys)"
proof (cases "length xs \<le> n")
  case True
  then show ?thesis by (simp add: last_n_def)
next
  case False
  then show ?thesis
    by (simp add: last_n_def add.commute)
qed

lemma length_last_n: "length (last_n n xs) = min n (length xs)"
  by (simp add: last_n_def)

lemma last_n_append_long: "n \<le> length ys \<Longrightarrow> last_n n (xs @ ys) = last_n n ys"
  by (simp add: last_n_def)

lemma read_dict_Json: "read_dict (Json doc) = Inr doc"
  by (simp add: read_dict_def mem_read_def)

lemma read_dict_Blank: "read_dict Blank = Inr empty_document"
  by (simp add: read_dict_def mem_read_def)

lemma read_dict_NotObject: "read_dict NotObject = Inl AttributeError"
  by (simp add: read_dict_def mem_read_def)

lemma read_dict_Corrupt: "read_dict Corrupt = Inl JSONDecodeError"
  by (simp add: read_dict_def mem_read_def)

lemma read_dict_Absent: "read_dict Absent = Inl FileNotFoundError"
  by (simp add: read_dict_def mem_read_def)

lemmas read_dict_simps =
  read_dict_Json read_dict_Blank read_dict_NotObject read_dict_Corrupt read_dict_Absent

lemma read_dict_Inr: "read_dict d = Inr doc \<Longrightarrow> mem_read d = Inr (Document doc)"
  by (cases d) (simp_all add: read_dict_def mem_read_def)

lemma read_dict_Inl:
  "read_dict d = Inl e \<Longrightarrow> mem_read d = Inl e \<or> mem_read d = Inr OtherValue"
  by (cases d) (simp_all add: read_dict_def mem_read_def)

lemma readable_iff: "readable d = (\<exists>doc. read_dict d = Inr doc)"
  by (cases "read_dict d") (simp_all add: readable_def)

lemma readable_safe_write: "readable (safe_write doc)"
  by (simp add: readable_def safe_write_def read_dict_simps)

lemma append_conversation_step:
  assumes "readable d" and "u \<noteq> None \<or> b \<noteq> None"
  shows "\<exists>d'. append_conversation u b d = Inr d' \<and> readable d' \<and>
           stored_turns d' = last_n MAX_CONVERSATIONS (stored_turns d @ [\<lparr>user = u, bot = b\<rparr>]) \<and>
           stored_facts d' = stored_facts d"
proof -
  from assms(1) obtain doc where rd: "read_dict d = Inr doc"
    by (cases "read_dict d") (simp_all add: readable_def)
  note mr = read_dict_Inr [OF rd]
  from assms(2) show ?thesis
    by (auto simp: rd mr readable_def append_conversation_def stored_turns_def stored_facts_def
          safe_write_def read_dict_simps get_conversations_def get_facts_def Let_def last_n_def)
qed

lemma append_conversation_noop:
  assumes "readable d"
  shows "append_conversation None None d = Inr d"
proof -
  from assms obtain doc where rd: "read_dict d = Inr doc"
    by (cases "read_dict d") (simp_all add: readable_def)
  from read_dict_Inr [OF rd] show ?thesis by (simp add: append_conversation_def)
qed

lemma append_conversation_unreadable:
  assumes "\<not> readable d" and "u \<noteq> None \<or> b \<noteq> None"
  shows "\<exists>e. append_conversation u b d = Inl e"
proof -
  from assms(1) obtain e where e: "read_dict d = Inl e"
    by (cases "read_dict d") (simp_all add: readable_def)
  from read_dict_Inl [OF e] show ?thesis
  proof
    assume "mem_read d = Inl e"
    then show ?thesis by (simp add: append_conversation_def)
  next
    assume "mem_read d = Inr OtherValue"
    with e assms(2) show ?thesis by (auto simp: append_conversation_def)
  qed
qed

lemma append_all_turns:
  assumes "readable d" and "\<forall>e \<in> set es. fst e \<noteq> None \<or> snd e \<noteq> None"
  shows "\<exists>d'. append_all es d = Inr d' \<and> readable d' \<and>
           stored_turns d' = (if es = [] then stored_turns d
              else last_n MAX_CONVERSATIONS (stored_turns d @ map mk_turn es)) \<and>
           stored_facts d' = stored_facts d"
  using assms
proof (induction es arbitrary: d)
  case Nil
  then show ?case by simp
next
  case (Cons e es)
  obtain u b where e: "e = (u, b)" by (cases e)
  from Cons.prems e have ne: "u \<noteq> None \<or> b \<noteq> None" by auto
  from append_conversation_step [OF Cons.prems(1) ne]
  obtain d1 where d1: "append_conversation u b d = Inr d1" "readable d1"
    "stored_turns d1 = last_n MAX_CONVERSATIONS (stored_turns d @ [\<lparr>user = u, bot = b\<rparr>])"
    "stored_facts d1 = stored_facts d" by blast
  from Cons.prems have rest: "\<forall>e \<in> set es. fst e \<noteq> None \<or> snd e \<noteq> None" by simp
  from Cons.IH [OF d1(2) rest]
  obtain d2 where d2: "append_all es d1 = Inr d2" "readable d2"
    "stored_turns d2 = (if es = [] then stored_turns d1
              else last_n MAX_CONVERSATIONS (stored_turns d1 @ map mk_turn es))"
    "stored_facts d2 = stored_facts d1" by blast
  have "append_all (e # es) d = Inr d2" using e d1(1) d2(1) by simp
  moreover have "stored_turns d2 = last_n MAX_CONVERSATIONS (stored_turns d @ map mk_turn (e # es))"
    using d2(3) d1(3) e by (simp add: last_n_last_n_append mk_turn_def)
  ultimately show ?case using d2(2) d2(4) d1(4) by simp
qed

text \<open>
  Claim C4. On a store whose file can be read, any run of \<open>append_conversation\<close> calls
  that each carry a \<open>user\<close> or a \<open>bot\<close> text succeeds and leaves the last 500 turns of the
  old log followed by the new turns, in their order: at most 500 turns after every call,
  and exactly 500, the most recent of the appended ones, once more than 500 were
  appended. A call that carries neither field changes nothing.
\<close>

theorem append_conversation_cap:
  assumes "readable d" and "\<forall>e \<in> set es. fst e \<noteq> None \<or> snd e \<noteq> None"
  shows "\<exists>d'. append_all es d = Inr d' \<and> readable d'
           \<and> stored_turns d' = (if es = [] then stored_turns d
                else last_n MAX_CONVERSATIONS (stored_turns d @ map mk_turn es))
           \<and> (es \<noteq> [] \<longrightarrow> length (stored_turns d') \<le> 500)
           \<and> (length es > 500 \<longrightarrow>
                length (stored_turns d') = 500 \<and> stored_turns d' = last_n 500 (map mk_turn es))
           \<and> append_conversation None None d = Inr d"
proof -
  from append_all_turns [OF assms]
  obtain d' where d': "append_all es d = Inr d'" "readable d'"
    "stored_turns d' = (if es = [] then stored_turns d
              else last_n MAX_CONVERSATIONS (stored_turns d @ map mk_turn es))" by blast
  have a: "es \<noteq> [] \<Longrightarrow> length (stored_turns d') \<le> 500"
    using d'(3) by (simp add: length_last_n MAX_CONVERSATIONS_def)
  have b: "length es > 500 \<Longrightarrow> stored_turns d' = last_n 500 (map mk_turn es)"
    using d'(3) by (auto simp: MAX_CONVERSATIONS_def last_n_append_long)
  have c: "length es > 500 \<Longrightarrow> length (stored_turns d') = 500"
    using b by (simp add: length_last_n)
  show ?thesis
    using d' a b c append_conversation_noop [OF assms(1)] by blast
qed

theorem append_conversation_cap_witness:
  "\<exists>d'. append_all (replicate 501 (Some ''hi'', None)) (Json empty_document) = Inr d'
     \<and> length (stored_turns d') = 500
     \<and> stored_turns d' = replicate 500 \<lparr>user = Some ''hi'', bot = None\<rparr>"
proof -
  have r: "readable (Json empty_document)"
    by (simp add: readable_def read_dict_simps)
  have e: "\<forall>e \<in> set (replicate 501 (Some ''hi'', None :: string option)). fst e \<noteq> None \<or> snd e \<noteq> None"
    by simp
  have l: "last_n 500 (map mk_turn (replicate 501 (Some ''hi'', None))) = replicate 500 \<lparr>user = Some ''hi'', bot = None\<rparr>"
    by (simp add: last_n_def mk_turn_def)
  from append_conversation_cap [OF r e] l show ?thesis
    by auto
qed

lemma remember_step:
  assumes "readable d"
  shows "\<exists>d'. remember k v d = Inr d' \<and> readable d' \<and>
           stored_facts d' = AList.update k v (stored_facts d) \<and>
           stored_turns d' = stored_turns d"
  using assms
  by (cases "read_dict d")
     (auto simp: readable_def remember_def stored_turns_def stored_facts_def
        safe_write_def read_dict_simps get_conversations_def get_facts_def)

lemma recall_stored: "readable d \<Longrightarrow> recall k d = Inr (map_of (stored_facts d) k)"
  by (cases "read_dict d") (auto simp: readable_def recall_def stored_facts_def)

lemma recall_unreadable: "\<not> readable d \<Longrightarrow> \<exists>e. recall k d = Inl e"
  by (cases "read_dict d") (auto simp: readable_def recall_def)

lemma filter_key_update:
  "distinct (map fst al) \<Longrightarrow> filter (\<lambda>p. fst p = k) (AList.update k v al) = [(k, v)]"
proof (induction al)
  case Nil
  then show ?case by simp
next
  case (Cons p al)
  show ?case
  proof (cases "fst p = k")
    case True
    with Cons.prems have "k \<notin> fst ` set al" by simp
    then have "\<forall>q \<in> set al. fst q \<noteq> k" by auto
    then have "filter (\<lambda>p. fst p = k) al = []" by (simp add: filter_empty_conv)
    with True show ?thesis by simp
  next
    case False
    with Cons show ?thesis by simp
  qed
qed

text \<open>
  Claim C8. On a store whose file can be read, \<open>remember(k, v)\<close> followed by \<open>recall(k)\<close>
  returns \<open>v\<close>; a later \<open>remember\<close> with the same key replaces the value, leaves every
  other key as it was, and the facts keep one entry per key.
\<close>

theorem remember_recall_roundtrip:
  assumes "readable d"
  shows "\<exists>d1 d2. remember k v d = Inr d1 \<and> recall k d1 = Inr (Some v)
           \<and> remember k v' d1 = Inr d2 \<and> recall k d2 = Inr (Some v')
           \<and> (\<forall>k'. k' \<noteq> k \<longrightarrow> recall k' d2 = recall k' d)
           \<and> (distinct (map fst (stored_facts d)) \<longrightarrow>
                distinct (map fst (stored_facts d2))
                \<and> filter (\<lambda>p. fst p = k) (stored_facts d2) = [(k, v')])"
proof -
  from remember_step [OF assms]
  obtain d1 where d1: "remember k v d = Inr d1" "readable d1"
    "stored_facts d1 = AList.update k v (stored_facts d)" by blast
  from remember_step [OF d1(2)]
  obtain d2 where d2: "remember k v' d1 = Inr d2" "readable d2"
    "stored_facts d2 = AList.update k v' (stored_facts d1)" by blast
  have r1: "recall k d1 = Inr (Some v)"
    using d1 by (simp add: recall_stored update_conv')
  have r2: "recall k d2 = Inr (Some v')"
    using d2 by (simp add: recall_stored update_conv')
  have fr: "\<And>k'. k' \<noteq> k \<Longrightarrow> recall k' d2 = recall k' d"
    using d1 d2 assms by (simp add: recall_stored update_conv')
  have ds: "distinct (map fst (stored_facts d)) \<Longrightarrow> distinct (map fst (stored_facts d2))"
    using d1(3) d2(3) by (simp add: distinct_update)
  have un: "distinct (map fst (stored_facts d)) \<Longrightarrow>
      filter (\<lambda>p. fst p = k) (stored_facts d2) = [(k, v')]"
    using d1(3) d2(3) by (simp add: filter_key_update distinct_update)
  from d1(1) d2(1) r1 r2 fr ds un show ?thesis by blast
qed

theorem remember_recall_roundtrip_witness:
  "\<exists>d1 d2. remember ''favorite_color'' ''navy'' Blank = Inr d1
     \<and> recall ''favorite_color'' d1 = Inr (Some ''navy'')
     \<and> remember ''favorite_color'' ''teal'' d1 = Inr d2
     \<and> recall ''favorite_color'' d2 = Inr (Some ''teal'')
     \<and> filter (\<lambda>p. fst p = ''favorite_color'') (stored_facts d2) = [(''favorite_color'', ''teal'')]"
proof -
  have r: "readable Blank" by (simp add: readable_def read_dict_simps)
  have s: "distinct (map fst (stored_facts Blank))"
    by (simp add: stored_facts_def read_dict_simps empty_document_def get_facts_def)
  from remember_recall_roundtrip [OF r, of "''favorite_color''" "''navy''" "''teal''"] s
  show ?thesis by blast
qed

section \<open>Properties of \<open>say\<close>\<close>

lemma emit_fields [simp]:
  "mem (emit es w) = mem w" "llm (emit es w) = llm w" "skills (emit es w) = skills w"
  "router (emit es w) = router w" "wakew (emit es w) = wakew w"
  "skills_dir (emit es w) = skills_dir w" "awake (emit es w) = awake w"
  "out (emit es w) = out w @ es"
  by (simp_all add: emit_def)

lemma tts_speak_emit: "tts_speak env t w = emit (speech env t) w"
  by (simp add: tts_speak_def speech_def emit_def)

lemma emit_emit: "emit bs (emit as w) = emit (as @ bs) w"
  by (simp add: emit_def)

lemma say_readable:
  assumes "readable (mem w)"
  shows "\<exists>d. append_conversation None (Some t) (mem w) = Inr d \<and> readable d
           \<and> stored_turns d = last_n MAX_CONVERSATIONS (stored_turns (mem w) @ [\<lparr>user = None, bot = Some t\<rparr>])
           \<and> stored_facts d = stored_facts (mem w)
           \<and> say env t w = (Inr (), (emit (Print (''Orion: '' @ t @ nl) # speech env t) w)\<lparr>mem := d\<rparr>)"
proof -
  from append_conversation_step [OF assms, of None "Some t"]
  obtain d where d: "append_conversation None (Some t) (mem w) = Inr d" "readable d"
    "stored_turns d = last_n MAX_CONVERSATIONS (stored_turns (mem w) @ [\<lparr>user = None, bot = Some t\<rparr>])"
    "stored_facts d = stored_facts (mem w)" by auto
  then show ?thesis
    by (simp add: say_def Let_def tts_speak_emit emit_emit)
qed

lemma say_unreadable:
  assumes "\<not> readable (mem w)"
  shows "\<exists>e. say env t w = (Inl e, emit (Print (''Orion: '' @ t @ nl) # speech env t) w)"
proof -
  from append_conversation_unreadable [OF assms, of None "Some t"]
  obtain e where "append_conversation None (Some t) (mem w) = Inl e" by blast
  then show ?thesis
    by (auto simp add: say_def Let_def tts_speak_emit emit_emit)
qed

section \<open>Key normalisation\<close>

lemma lower_chr_upper: "is_upper c \<Longrightarrow> is_lower (lower_chr c)"
proof -
  assume u: "is_upper c"
  then have b: "65 \<le> (of_char c :: nat)" "(of_char c :: nat) \<le> 90"
    by (simp_all add: is_upper_def less_eq_char_def)
  then have "(of_char (char_of (of_char c + (32::nat)) :: char) :: nat) = of_char c + 32"
    by simp
  with b u show ?thesis
    by (simp add: lower_chr_def is_lower_def less_eq_char_def)
qed

lemma lower_chr_latin1: "is_upper_latin1 c \<Longrightarrow> CHR 0xE0 \<le> lower_chr c"
proof -
  assume u: "is_upper_latin1 c"
  then have b: "192 \<le> (of_char c :: nat)" "(of_char c :: nat) \<le> 222"
    by (simp_all add: is_upper_latin1_def less_eq_char_def)
  then have "(of_char (char_of (of_char c + (32::nat)) :: char) :: nat) = of_char c + 32"
    by simp
  with b u show ?thesis
    by (simp add: lower_chr_def less_eq_char_def)
qed

lemma lower_chr_fixed:
  assumes "\<not> is_lower a" and "\<not> is_upper a" and "a < CHR 0xC0"
  shows "lower_chr c = a \<longleftrightarrow> c = a"
proof (cases "is_upper c")
  case True
  from lower_chr_upper [OF True] assms(1) have "lower_chr c \<noteq> a" by auto
  moreover from True assms(2) have "c \<noteq> a" by auto
  ultimately show ?thesis by simp
next
  case False
  show ?thesis
  proof (cases "is_upper_latin1 c")
    case True
    from lower_chr_latin1 [OF True] assms(3) have "lower_chr c \<noteq> a"
      by (auto simp: less_eq_char_def less_char_def)
    moreover from True assms(3) have "c \<noteq> a"
      by (auto simp: is_upper_latin1_def less_eq_char_def less_char_def)
    ultimately show ?thesis by simp
  next
    case False
    with \<open>\<not> is_upper c\<close> show ?thesis by (simp add: lower_chr_def)
  qed
qed

lemma normalize_key_map:
  "normalize_key g =
     map (\<lambda>c. if c = CHR '' '' \<or> c = CHR ''-'' then CHR ''_'' else lower_chr c) (strip g)"
proof -
  have a: "\<And>c. lower_chr c = CHR '' '' \<longleftrightarrow> c = CHR '' ''"
    by (rule lower_chr_fixed) (simp_all add: is_lower_def is_upper_def less_eq_char_def less_char_def)
  have b: "\<And>c. lower_chr c = CHR ''-'' \<longleftrightarrow> c = CHR ''-''"
    by (rule lower_chr_fixed) (simp_all add: is_lower_def is_upper_def less_eq_char_def less_char_def)
  show ?thesis
    by (auto simp: normalize_key_def replace_chr_def lower_def a b)
qed

lemma say_handled_readable:
  assumes "readable (mem w)"
  shows "\<exists>d. append_conversation None (Some t) (mem w) = Inr d \<and> readable d
           \<and> stored_turns d = last_n MAX_CONVERSATIONS (stored_turns (mem w) @ [\<lparr>user = None, bot = Some t\<rparr>])
           \<and> stored_facts d = stored_facts (mem w)
           \<and> say_handled env t w = (Inr True, (emit (Print (''Orion: '' @ t @ nl) # speech env t) w)\<lparr>mem := d\<rparr>)"
  using say_readable [OF assms, of t env] by (auto simp: say_handled_def)

lemma memory_set_stores:
  assumes "re_fullmatch True MEM_LIST_RE low = None" and "re_fullmatch True MEM_GET_RE low = None"
    and "re_fullmatch True MEM_SET_RE low = Some m" and "readable (mem w)"
  shows "\<exists>w'. handle_memory_admin env low w = (Inr True, w')
           \<and> stored_facts (mem w') =
               AList.update (normalize_key (mgroup 1 m)) (strip (mgroup 2 m)) (stored_facts (mem w))"
proof -
  let ?k = "normalize_key (mgroup 1 m)" and ?v = "strip (mgroup 2 m)"
  from remember_step [OF assms(4), of ?k ?v]
  obtain d where d: "remember ?k ?v (mem w) = Inr d" "readable d"
    "stored_facts d = AList.update ?k ?v (stored_facts (mem w))" by blast
  have "readable (mem (w\<lparr>mem := d\<rparr>))" using d(2) by simp
  from say_handled_readable [OF this, of "''Saved '' @ key_title ?k @ '': '' @ ?v" env]
  obtain d' where d': "stored_facts d' = stored_facts d"
    "say_handled env (''Saved '' @ key_title ?k @ '': '' @ ?v) (w\<lparr>mem := d\<rparr>)
       = (Inr True, (emit (Print (''Orion: '' @ (''Saved '' @ key_title ?k @ '': '' @ ?v) @ nl)
                            # speech env (''Saved '' @ key_title ?k @ '': '' @ ?v)) (w\<lparr>mem := d\<rparr>))\<lparr>mem := d'\<rparr>)"
    by auto
  show ?thesis
    using assms(1-3) d d' by (simp add: handle_memory_admin_def Let_def)
qed

text \<open>
  \<open>remember\<close> does not normalise: the fact goes under \<open>Favorite Color\<close> as given, and
  the normalised key \<open>favorite_color\<close> recalls nothing.
\<close>

theorem remember_keeps_key_counterexample:
  "remember ''Favorite Color'' ''navy'' (Json empty_document)
     = Inr (Json \<lparr>facts = Some [(''Favorite Color'', ''navy'')], conversations = Some []\<rparr>)
   \<and> normalize_key ''Favorite Color'' = ''favorite_color''
   \<and> recall ''favorite_color''
        (Json \<lparr>facts = Some [(''Favorite Color'', ''navy'')], conversations = Some []\<rparr>) = Inr None"
  by code_simp

text \<open>
  Claim C3, as the code has it. \<open>remember(k, v)\<close> upserts the fact under the key exactly
  as it is given and persists the document; it is the \<open>memory set\<close> admin handler that
  normalises the key text (stripped, lower-cased, spaces and hyphens turned into
  underscores) before it calls \<open>remember\<close>.
\<close>

theorem remember_stores_given_key:
  "(readable d \<longrightarrow>
      (\<exists>d'. remember k v d = Inr d' \<and> readable d'
         \<and> stored_facts d' = AList.update k v (stored_facts d)
         \<and> stored_turns d' = stored_turns d))
   \<and> (re_fullmatch True MEM_LIST_RE low = None \<and> re_fullmatch True MEM_GET_RE low = None
        \<and> re_fullmatch True MEM_SET_RE low = Some m \<and> readable (mem w) \<longrightarrow>
      (\<exists>w'. handle_memory_admin env low w = (Inr True, w')
         \<and> stored_facts (mem w') =
             AList.update (normalize_key (mgroup 1 m)) (strip (mgroup 2 m)) (stored_facts (mem w))))
   \<and> normalize_key g =
       map (\<lambda>c. if c = CHR '' '' \<or> c = CHR ''-'' then CHR ''_'' else lower_chr c) (strip g)"
  using remember_step [of d k v] memory_set_stores [of low m w env] normalize_key_map [of g]
  by blast

theorem remember_stores_given_key_witness:
  "(\<exists>d'. remember ''Favorite Color'' ''navy'' Blank = Inr d'
      \<and> stored_facts d' = [(''Favorite Color'', ''navy'')])
   \<and> (\<exists>w'. handle_memory_admin example_env ''memory set favorite color = navy'' example_world
              = (Inr True, w')
         \<and> stored_facts (mem w') = [(''user_name'', ''Ben''), (''favorite_color'', ''navy'')])"
proof -
  let ?low = "''memory set favorite color = navy''"
  let ?m = "\<lparr>skipped = [], matched = ?low, mgroups = [(2, ''navy''), (1, ''favorite color '')]\<rparr>"
  have h1: "re_fullmatch True MEM_LIST_RE ?low = None" by code_simp
  have h2: "re_fullmatch True MEM_GET_RE ?low = None" by code_simp
  have h3: "re_fullmatch True MEM_SET_RE ?low = Some ?m" by code_simp
  have h4: "readable (mem example_world)" by code_simp
  have h5: "readable Blank" by code_simp
  have k: "normalize_key (mgroup 1 ?m) = ''favorite_color''" by code_simp
  have v: "strip (mgroup 2 ?m) = ''navy''" by code_simp
  have f: "stored_facts (mem example_world) = [(''user_name'', ''Ben'')]" by code_simp
  have f0: "stored_facts Blank = []" by code_simp
  from remember_stores_given_key [of Blank "''Favorite Color''" "''navy''" ?low ?m example_world example_env "[]"]
    h1 h2 h3 h4 h5
  have a: "\<exists>d'. remember ''Favorite Color'' ''navy'' Blank = Inr d'
      \<and> stored_facts d' = AList.update ''Favorite Color'' ''navy'' (stored_facts Blank)"
    and b: "\<exists>w'. handle_memory_admin example_env ?low example_world = (Inr True, w')
         \<and> stored_facts (mem w') =
             AList.update (normalize_key (mgroup 1 ?m)) (strip (mgroup 2 ?m)) (stored_facts (mem example_world))"
    by blast+
  from a b show ?thesis unfolding k v f f0 by simp
qed

section \<open>Scaffolding a skill file\<close>

lemma not_identifier_match:
  "rmatch False not_identifier_chr st =
     (case rest st of [] \<Rightarrow> []
      | c # cs \<Rightarrow> if is_word c then [] else [st\<lparr>prev := Some c, rest := cs\<rparr>])"
  by (auto simp: not_identifier_chr_def step_chr_def cls_match_def is_word_def is_upper_def
      is_lower_def is_digit_def split: list.splits)

lemma find_not_identifier:
  "find_match False not_identifier_chr adv p s =
     (case dropWhile is_word s of
        [] \<Rightarrow> None
      | x # _ \<Rightarrow> Some \<lparr>skipped = takeWhile is_word s, matched = [x], mgroups = []\<rparr>)"
proof (induction s arbitrary: adv p)
  case Nil
  then show ?case by (simp add: not_identifier_match)
next
  case (Cons c cs)
  show ?case
  proof (cases "is_word c")
    case True
    show ?thesis
    proof (cases "dropWhile is_word cs")
      case Nil
      with True show ?thesis
        by (simp add: not_identifier_match Cons.IH del: dropWhile_eq_Nil_conv)
    next
      case (Cons x xs)
      with True show ?thesis
        by (simp add: not_identifier_match Cons.IH del: dropWhile_eq_Nil_conv)
    qed
  next
    case False
    then show ?thesis
      by (simp add: not_identifier_match)
  qed
qed

lemma sub_loop_not_identifier:
  "length s < fuel \<Longrightarrow>
   sub_loop fuel False not_identifier_chr ''_'' None adv p s = map sanitize_chr s"
proof (induction fuel arbitrary: s adv p)
  case 0
  then show ?case by simp
next
  case (Suc fuel)
  show ?case
  proof (cases "dropWhile is_word s")
    case Nil
    then have fm: "find_match False not_identifier_chr adv p s = None"
      by (simp add: find_not_identifier del: dropWhile_eq_Nil_conv)
    from Nil have "\<forall>c \<in> set s. is_word c" by (simp add: dropWhile_eq_Nil_conv)
    then have "map sanitize_chr s = s" by (simp add: sanitize_chr_def map_idI)
    with fm show ?thesis by simp
  next
    case (Cons x xs)
    define tw where "tw = takeWhile is_word s"
    have s: "s = tw @ x # xs"
      unfolding tw_def using Cons takeWhile_dropWhile_id [of is_word s] by simp
    have nx: "\<not> is_word x" using Cons hd_dropWhile [of is_word s] by auto
    have wd: "\<forall>c \<in> set tw. is_word c"
      unfolding tw_def by (auto dest: set_takeWhileD)
    have fm: "find_match False not_identifier_chr adv p s
        = Some \<lparr>skipped = tw, matched = [x], mgroups = []\<rparr>"
      unfolding tw_def using Cons by (simp add: find_not_identifier del: dropWhile_eq_Nil_conv)
    have dr: "drop (Suc (length tw)) s = xs"
      by (simp add: s)
    have "length xs < fuel" using Suc.prems by (simp add: s)
    from Suc.IH [OF this]
    have ih: "\<And>adv p. sub_loop fuel False not_identifier_chr ''_'' None adv p xs = map sanitize_chr xs" .
    have "map sanitize_chr tw = tw"
      using wd by (simp add: sanitize_chr_def map_idI)
    then have ms: "map sanitize_chr s = tw @ CHR ''_'' # map sanitize_chr xs"
      using nx by (simp add: s sanitize_chr_def)
    show ?thesis
      using fm dr ih ms by (simp add: Let_def)
  qed
qed

lemma safe_name_map: "safe_name n = map (\<lambda>c. lower_chr (sanitize_chr c)) n"
proof -
  have "length n < 2 * length n + 2" by simp
  from sub_loop_not_identifier [OF this, of False None]
  have "re_sub False not_identifier_chr ''_'' n None = map sanitize_chr n"
    by (simp only: re_sub_def)
  then show ?thesis
    by (simp only: safe_name_def lower_def map_map comp_def)
qed

lemma scaffold_existing:
  "path_exists (safe_name n @ ''.py'') fs \<Longrightarrow> scaffold n fs = (safe_name n @ ''.py'', fs)"
  by (simp add: scaffold_def Let_def)

lemma scaffold_new:
  "\<not> path_exists (safe_name n @ ''.py'') fs \<Longrightarrow>
   scaffold n fs = (safe_name n @ ''.py'',
                    fs\<lparr>py_files := py_files fs @ [(safe_name n @ ''.py'', template (safe_name n))]\<rparr>)"
  by (simp add: scaffold_def Let_def)

lemma scaffold_path_exists: "path_exists (safe_name n @ ''.py'') (snd (scaffold n fs))"
  by (cases "path_exists (safe_name n @ ''.py'') fs")
     (auto simp: scaffold_existing scaffold_new path_exists_def map_add_def split: option.splits)

lemma scaffold_keeps_files:
  "map_of (py_files fs) f = Some c \<Longrightarrow> map_of (py_files (snd (scaffold n fs))) f = Some c"
  by (cases "path_exists (safe_name n @ ''.py'') fs")
     (auto simp: scaffold_existing scaffold_new map_add_def split: option.splits)

text \<open>
  Claim C9. \<open>scaffold(name)\<close> replaces every character of the name outside
  \<open>[A-Za-z0-9_]\<close> by an underscore and lower-cases the result (\<open>Foo Bar!\<close> gives
  \<open>foo_bar_\<close>); it returns the path of that name, writes the template there only when no
  file exists at the path, and leaves every existing file as it was. A second call with the
  same name returns the same path and changes nothing.
\<close>

theorem scaffold_idempotent:
  "safe_name n = map (\<lambda>c. lower_chr (if is_word c then c else CHR ''_'')) n
   \<and> safe_name ''Foo Bar!'' = ''foo_bar_''
   \<and> fst (scaffold n fs) = safe_name n @ ''.py''
   \<and> (path_exists (safe_name n @ ''.py'') fs \<longrightarrow> snd (scaffold n fs) = fs)
   \<and> (\<not> path_exists (safe_name n @ ''.py'') fs \<longrightarrow>
        snd (scaffold n fs)
          = fs\<lparr>py_files := py_files fs @ [(safe_name n @ ''.py'', template (safe_name n))]\<rparr>)
   \<and> scaffold n (snd (scaffold n fs)) = scaffold n fs
   \<and> (\<forall>f c. map_of (py_files fs) f = Some c \<longrightarrow>
         map_of (py_files (snd (scaffold n fs))) f = Some c)"
proof -
  have a: "safe_name n = map (\<lambda>c. lower_chr (if is_word c then c else CHR ''_'')) n"
    by (simp add: safe_name_map sanitize_chr_def)
  have b: "safe_name ''Foo Bar!'' = ''foo_bar_''"
    by code_simp
  have c: "fst (scaffold n fs) = safe_name n @ ''.py''"
    by (simp add: scaffold_def Let_def)
  have d: "scaffold n (snd (scaffold n fs)) = scaffold n fs"
  proof -
    have "scaffold n (snd (scaffold n fs)) = (fst (scaffold n fs), snd (scaffold n fs))"
      using scaffold_existing [OF scaffold_path_exists, of n fs] c by simp
    then show ?thesis by simp
  qed
  show ?thesis
    using a b c d scaffold_existing [of n fs] scaffold_new [of n fs] scaffold_keeps_files [of fs _ _ n]
    by simp
qed

theorem scaffold_idempotent_witness:
  "fst (scaffold ''Foo Bar!'' \<lparr>py_files = [], enabled_state = NoState\<rparr>) = ''foo_bar_.py''
   \<and> py_files (snd (scaffold ''Foo Bar!'' \<lparr>py_files = [], enabled_state = NoState\<rparr>))
       = [(''foo_bar_.py'', template ''foo_bar_'')]
   \<and> scaffold ''Foo Bar!'' \<lparr>py_files = [(''foo_bar_.py'', ''x = 1'')], enabled_state = NoState\<rparr>
       = (''foo_bar_.py'', \<lparr>py_files = [(''foo_bar_.py'', ''x = 1'')], enabled_state = NoState\<rparr>)"
proof -
  let ?e = "\<lparr>py_files = [], enabled_state = NoState\<rparr>"
  let ?f = "\<lparr>py_files = [(''foo_bar_.py'', ''x = 1'')], enabled_state = NoState\<rparr>"
  let ?p = "safe_name ''Foo Bar!'' @ ''.py''"
  note te = scaffold_idempotent [of "''Foo Bar!''" ?e]
  note tf = scaffold_idempotent [of "''Foo Bar!''" ?f]
  have n: "safe_name ''Foo Bar!'' = ''foo_bar_''"
    by (rule conjunct1 [OF conjunct2 [OF te]])
  have e1: "fst (scaffold ''Foo Bar!'' ?e) = ?p"
    by (rule conjunct1 [OF conjunct2 [OF conjunct2 [OF te]]])
  have e2: "\<not> path_exists ?p ?e \<longrightarrow>
      snd (scaffold ''Foo Bar!'' ?e)
        = ?e\<lparr>py_files := py_files ?e @ [(?p, template (safe_name ''Foo Bar!''))]\<rparr>"
    by (rule conjunct1 [OF conjunct2 [OF conjunct2 [OF conjunct2 [OF conjunct2 [OF te]]]]])
  have f1: "fst (scaffold ''Foo Bar!'' ?f) = ?p"
    by (rule conjunct1 [OF conjunct2 [OF conjunct2 [OF tf]]])
  have f2: "path_exists ?p ?f \<longrightarrow> snd (scaffold ''Foo Bar!'' ?f) = ?f"
    by (rule conjunct1 [OF conjunct2 [OF conjunct2 [OF conjunct2 [OF tf]]]])
  have pe: "\<not> path_exists ?p ?e" by (simp add: path_exists_def)
  have pf: "path_exists ?p ?f" by (simp add: n path_exists_def)
  have a: "fst (scaffold ''Foo Bar!'' ?e) = ''foo_bar_.py''"
    using e1 by (simp add: n)
  have b: "py_files (snd (scaffold ''Foo Bar!'' ?e)) = [(''foo_bar_.py'', template ''foo_bar_'')]"
    using e2 pe by (simp add: n)
  have c1: "fst (scaffold ''Foo Bar!'' ?f) = ''foo_bar_.py''"
    using f1 by (simp add: n)
  have c2: "snd (scaffold ''Foo Bar!'' ?f) = ?f"
    using f2 pf by simp
  have c: "scaffold ''Foo Bar!'' ?f = (''foo_bar_.py'', ?f)"
    using c1 c2 by (simp add: prod_eq_iff)
  from a b c show ?thesis by simp
qed

section \<open>Enable state and loading\<close>

lemma is_enabled_update:
  "is_enabled n (AList.update x b st) = (if n = x then b else is_enabled n st)"
  by (simp add: is_enabled_def update_conv')

lemma read_state_write_state [simp]: "read_state (write_state st fs) = st"
  by (simp add: read_state_def write_state_def)

lemma iter_skill_modules_write_state [simp]:
  "iter_skill_modules (write_state st fs) = iter_skill_modules fs"
  by (simp add: iter_skill_modules_def write_state_def)

lemma set_enabled_snd: "snd (set_enabled x b fs) = write_state (AList.update x b (read_state fs)) fs"
  by (simp add: set_enabled_def)

lemma load_loop_cong:
  "(\<And>n. is_enabled n st = is_enabled n st') \<Longrightarrow>
   load_loop imp st mods res = load_loop imp st' mods res"
  by (induction mods arbitrary: res) (simp_all split: option.splits)

lemma load_loop_keys:
  "fst ` set (load_loop imp st mods res) =
     fst ` set res \<union>
     {sk_name sk | m sk. m \<in> set mods \<and> load_one imp m = Some sk \<and> is_enabled (sk_name sk) st}"
proof (induction mods arbitrary: res)
  case Nil
  then show ?case by simp
next
  case (Cons m mods)
  show ?case
  proof (cases "load_one imp m")
    case None
    then show ?thesis by (auto simp: Cons.IH)
  next
    case (Some sk)
    show ?thesis
    proof (cases "is_enabled (sk_name sk) st")
      case True
      with Some show ?thesis
        by (cases m) (auto simp: Cons.IH dom_update)
    next
      case False
      with Some show ?thesis by (auto simp: Cons.IH)
    qed
  qed
qed

lemma filter_update_same:
  "filter (\<lambda>q. fst q \<noteq> x) (AList.update x v ps) = filter (\<lambda>q. fst q \<noteq> x) ps"
  by (induction ps) auto

lemma load_loop_disabled:
  assumes "\<not> is_enabled x st'" and "\<And>n. n \<noteq> x \<Longrightarrow> is_enabled n st' = is_enabled n st"
  shows "load_loop imp st' mods (filter (\<lambda>q. fst q \<noteq> x) res)
           = filter (\<lambda>q. fst q \<noteq> x) (load_loop imp st mods res)"
proof (induction mods arbitrary: res)
  case Nil
  then show ?case by simp
next
  case (Cons m mods)
  show ?case
  proof (cases "load_one imp m")
    case None
    then show ?thesis by (simp add: Cons.IH)
  next
    case (Some sk)
    show ?thesis
    proof (cases "sk_name sk = x")
      case True
      show ?thesis
      proof (cases "is_enabled x st")
        case e: True
        have "filter (\<lambda>q. fst q \<noteq> x) (load_loop imp st mods (AList.update x sk res))
            = load_loop imp st' mods (filter (\<lambda>q. fst q \<noteq> x) res)"
          using Cons.IH [of "AList.update x sk res"] by (simp add: filter_update_same)
        with Some True e assms(1) show ?thesis by simp
      next
        case e: False
        with Some True assms(1) show ?thesis by (simp add: Cons.IH)
      qed
    next
      case False
      have eq: "is_enabled (sk_name sk) st' = is_enabled (sk_name sk) st"
        using False assms(2) by simp
      show ?thesis
      proof (cases "is_enabled (sk_name sk) st")
        case e: True
        have "AList.update (sk_name sk) sk (filter (\<lambda>q. fst q \<noteq> x) res)
            = filter (\<lambda>q. fst q \<noteq> x) (AList.update (sk_name sk) sk res)"
          using False by (simp add: update_filter)
        with Some e eq show ?thesis
          using Cons.IH [of "AList.update (sk_name sk) sk res"] by simp
      next
        case e: False
        with Some eq show ?thesis by (simp add: Cons.IH)
      qed
    qed
  qed
qed

lemma load_skills_disabled:
  "load_skills imp (snd (set_enabled x False fs)) = filter (\<lambda>q. fst q \<noteq> x) (load_skills imp fs)"
proof -
  let ?st = "read_state fs" and ?st' = "AList.update x False (read_state fs)"
  have a: "\<not> is_enabled x ?st'" by (simp add: is_enabled_update)
  have b: "\<And>n. n \<noteq> x \<Longrightarrow> is_enabled n ?st' = is_enabled n ?st" by (simp add: is_enabled_update)
  from load_loop_disabled [of x ?st' ?st imp "iter_skill_modules fs" "[]", OF a b]
  show ?thesis by (simp add: load_skills_def set_enabled_snd)
qed

lemma load_skills_active_enabled:
  "x \<in> fst ` set (load_skills imp fs) \<Longrightarrow> is_enabled x (read_state fs)"
  by (auto simp: load_skills_def load_loop_keys)

lemma load_skills_restored:
  assumes "x \<in> fst ` set (load_skills imp fs)"
  shows "load_skills imp (snd (set_enabled x True (snd (set_enabled x False fs)))) = load_skills imp fs"
proof -
  have "\<And>n. is_enabled n (AList.update x True (AList.update x False (read_state fs)))
          = is_enabled n (read_state fs)"
    using load_skills_active_enabled [OF assms] by (simp add: is_enabled_update)
  from load_loop_cong [OF this]
  show ?thesis by (simp add: load_skills_def set_enabled_snd)
qed

lemma load_skills_default_on:
  assumes "m \<in> set (iter_skill_modules fs)" and "load_one imp m = Some sk"
    and "map_of (read_state fs) (sk_name sk) = None"
  shows "sk_name sk \<in> fst ` set (load_skills imp fs)"
proof -
  have "is_enabled (sk_name sk) (read_state fs)" using assms(3) by (simp add: is_enabled_def)
  with assms(1,2) show ?thesis
    unfolding load_skills_def load_loop_keys by blast
qed

lemma load_skills_enabled_iff:
  "x \<in> fst ` set (load_skills imp (snd (set_enabled x True fs)))
     \<longleftrightarrow> (\<exists>m sk. m \<in> set (iter_skill_modules fs) \<and> load_one imp m = Some sk \<and> sk_name sk = x)"
  unfolding load_skills_def load_loop_keys set_enabled_snd
  by (auto simp: is_enabled_update)

text \<open>
  Claim C6. After \<open>set_enabled(x, false)\<close> a load yields the active set without \<open>x\<close> and
  with every other skill as before; when \<open>x\<close> was active, \<open>set_enabled(x, true)\<close> and
  another load give back the active set as it was, and in general a load after
  \<open>set_enabled(x, true)\<close> holds \<open>x\<close> exactly when a discovered file loads as a skill named
  \<open>x\<close>. A name absent from the persisted mapping counts as enabled.
\<close>

theorem set_enabled_load_skills:
  "load_skills imp (snd (set_enabled x False fs)) = filter (\<lambda>q. fst q \<noteq> x) (load_skills imp fs)
   \<and> x \<notin> fst ` set (load_skills imp (snd (set_enabled x False fs)))
   \<and> (x \<in> fst ` set (load_skills imp fs) \<longrightarrow>
        load_skills imp (snd (set_enabled x True (snd (set_enabled x False fs)))) = load_skills imp fs)
   \<and> (x \<in> fst ` set (load_skills imp (snd (set_enabled x True fs)))
        \<longleftrightarrow> (\<exists>m sk. m \<in> set (iter_skill_modules fs) \<and> load_one imp m = Some sk \<and> sk_name sk = x))
   \<and> (map_of st n = None \<longrightarrow> is_enabled n st)
   \<and> (m \<in> set (iter_skill_modules fs) \<and> load_one imp m = Some sk
        \<and> map_of (read_state fs) (sk_name sk) = None \<longrightarrow>
        sk_name sk \<in> fst ` set (load_skills imp fs))"
proof -
  have a: "load_skills imp (snd (set_enabled x False fs)) = filter (\<lambda>q. fst q \<noteq> x) (load_skills imp fs)"
    by (rule load_skills_disabled)
  have b: "x \<notin> fst ` set (load_skills imp (snd (set_enabled x False fs)))"
    unfolding a by auto
  have e: "map_of st n = None \<longrightarrow> is_enabled n st"
    by (simp add: is_enabled_def)
  show ?thesis
    using a b e load_skills_restored [of x imp fs] load_skills_enabled_iff [of x imp fs]
      load_skills_default_on [of m fs imp sk]
    by simp
qed

theorem set_enabled_load_skills_witness:
  "''hello'' \<in> fst ` set (load_skills hello_import hello_fs)
   \<and> ''hello'' \<notin> fst ` set (load_skills hello_import (snd (set_enabled ''hello'' False hello_fs)))
   \<and> map fst (load_skills hello_import
                 (snd (set_enabled ''hello'' True (snd (set_enabled ''hello'' False hello_fs)))))
       = [''hello'']"
proof -
  note t = set_enabled_load_skills [of hello_import "''hello''" hello_fs "[]" "''hello''"
      "(''hello'', ''# skills/hello.py'')" "the (load_one hello_import (''hello'', ''# skills/hello.py''))"]
  have k: "map fst (load_skills hello_import hello_fs) = [''hello'']"
    by code_simp
  then have "fst ` set (load_skills hello_import hello_fs) = {''hello''}"
    by (simp only: set_map [symmetric] list.set)
  then have a: "''hello'' \<in> fst ` set (load_skills hello_import hello_fs)"
    by simp
  have b: "''hello'' \<notin> fst ` set (load_skills hello_import (snd (set_enabled ''hello'' False hello_fs)))"
    by (rule conjunct1 [OF conjunct2 [OF t]])
  have "''hello'' \<in> fst ` set (load_skills hello_import hello_fs) \<longrightarrow>
        load_skills hello_import (snd (set_enabled ''hello'' True (snd (set_enabled ''hello'' False hello_fs))))
          = load_skills hello_import hello_fs"
    by (rule conjunct1 [OF conjunct2 [OF conjunct2 [OF t]]])
  with a k have c: "map fst (load_skills hello_import
                 (snd (set_enabled ''hello'' True (snd (set_enabled ''hello'' False hello_fs)))))
       = [''hello'']"
    by simp
  from a b c show ?thesis by simp
qed

section \<open>The stages of the reply of the language model\<close>

lemma facts_like_readable: "readable d \<Longrightarrow> \<exists>fs. facts_like n d = Inr fs"
  by (cases "read_dict d") (simp_all add: readable_def facts_like_def)

lemma preferred_picks_readable: "readable d \<Longrightarrow> \<exists>ps. preferred_picks ks d = Inr ps"
  by (induction ks) (auto simp: recall_stored)

lemma relevant_facts_readable: "readable d \<Longrightarrow> \<exists>fs. relevant_facts d u n = Inr fs"
proof -
  assume r: "readable d"
  from facts_like_readable [OF r] obtain al where al: "facts_like [] d = Inr al" by blast
  from preferred_picks_readable [OF r] obtain ps where ps: "preferred_picks PREFERRED_FACT_KEYS d = Inr ps"
    by blast
  show ?thesis
    by (simp add: relevant_facts_def al ps Let_def)
qed

lemma apology_nonempty: "apology \<noteq> []"
  by (simp add: apology_def)

lemma new_events_append [simp]: "out w' = out w @ es \<Longrightarrow> new_events w w' = es"
  by (simp add: new_events_def)

lemma printed_Cons [simp]: "printed (e # es) = print_text e @ printed es"
  by (simp add: printed_def)

lemma printed_Nil [simp]: "printed [] = []"
  by (simp add: printed_def)

lemma printed_append [simp]: "printed (es @ fs) = printed es @ printed fs"
  by (simp add: printed_def)

lemma printed_map_Print [simp]: "printed (map Print cs) = concat cs"
  by (induction cs) simp_all

lemma printed_speech [simp]: "printed (speech env t) = []"
  by (simp add: speech_def)

lemma llm_respond_readable:
  assumes "readable (mem w)"
  shows "(fallback_chain env (llm w) (llm_prompt (mem w) u) = None
            \<and> (\<exists>l es. \<forall>env2. llm_stream env2 = llm_stream env \<and> llm_send env2 = llm_send env
                  \<and> llm_reset env2 = llm_reset env \<longrightarrow>
                llm_respond env2 u w = (Inl BackendError, w\<lparr>llm := l, out := out w @ es\<rparr>)))
       \<or> (\<exists>reply calls l' d es.
           fallback_chain env (llm w) (llm_prompt (mem w) u) = Some (reply, calls, l')
           \<and> reply \<noteq> []
           \<and> append_conversation None (Some reply) (mem w) = Inr d
           \<and> filter is_llm_call es = calls
           \<and> filter is_speech es = []
           \<and> (streamed_chunks env (llm w) (llm_prompt (mem w) u) = [] \<longrightarrow>
                printed es = ''Orion: '' @ reply @ nl)
           \<and> (strip (concat (streamed_chunks env (llm w) (llm_prompt (mem w) u))) \<noteq> [] \<longrightarrow>
                reply = strip (concat (streamed_chunks env (llm w) (llm_prompt (mem w) u)))
                \<and> printed es
                    = ''Orion: '' @ concat (streamed_chunks env (llm w) (llm_prompt (mem w) u)) @ nl)
           \<and> (\<forall>env2. llm_stream env2 = llm_stream env \<and> llm_send env2 = llm_send env
                  \<and> llm_reset env2 = llm_reset env \<longrightarrow>
                llm_respond env2 u w
                  = (Inr reply, w\<lparr>llm := l', mem := d, out := out w @ es @ speech env2 reply\<rparr>)))"
proof -
  from relevant_facts_readable [OF assms] obtain fs where fs: "relevant_facts (mem w) u 6 = Inr fs"
    by blast
  define x where "x = llm_prompt (mem w) u"
  have x: "(if format_fact_context fs \<noteq> [] then format_fact_context fs @ nl @ nl @ ''User: '' @ u else u) = x"
    by (simp add: x_def llm_prompt_def fs Let_def)
  obtain chunks l1 where st: "llm_stream env (llm w) x = (chunks, l1)" by (cases "llm_stream env (llm w) x")
  obtain r2 l2 where s2: "llm_send env l1 x = (r2, l2)" by (cases "llm_send env l1 x")
  define full where "full = filter (\<lambda>c. c \<noteq> []) chunks"
  define r1 where "r1 = strip (concat full)"
  have sc: "streamed_chunks env (llm w) (llm_prompt (mem w) u) = full"
    by (simp add: streamed_chunks_def x_def [symmetric] st full_def)
  have r1e: "full = [] \<Longrightarrow> r1 = []"
    by (simp add: r1_def strip_def lstrip_def rstrip_def)
  have ac: "\<And>t. \<exists>d. append_conversation None (Some t) (mem w) = Inr d"
    using append_conversation_step [OF assms, of None "Some t" for t] by auto
  have isp: "\<And>cs. filter is_speech (map Print cs) = []" "\<And>cs. filter is_llm_call (map Print cs) = []"
    by (induct_tac cs, simp_all)+
  define pr where "pr = (if full \<noteq> [] then Print ''Orion: '' # map Print full @ [Print nl] else [])"
  consider (a) "r1 \<noteq> []" | (b) "r1 = []" "r2 \<noteq> []"
    | (n) "r1 = []" "r2 = []" "llm_reset env l2 = None"
    | (c) l2' r3 l3 where "r1 = []" "r2 = []" "llm_reset env l2 = Some l2'"
        "llm_send env l2' x = (r3, l3)" "r3 \<noteq> []"
    | (d) l2' l3 where "r1 = []" "r2 = []" "llm_reset env l2 = Some l2'"
        "llm_send env l2' x = ([], l3)"
  proof (cases "r1 = []")
    case False
    with a show ?thesis by blast
  next
    case r1: True
    show ?thesis
    proof (cases "r2 = []")
      case False
      with r1 b show ?thesis by blast
    next
      case r2: True
      show ?thesis
      proof (cases "llm_reset env l2")
        case None
        with r1 r2 n show ?thesis by blast
      next
        case (Some l2')
        obtain r3 l3 where s3: "llm_send env l2' x = (r3, l3)" by (cases "llm_send env l2' x")
        show ?thesis
        proof (cases "r3 = []")
          case True
          with r1 r2 Some s3 d show ?thesis by blast
        next
          case False
          with r1 r2 Some s3 c show ?thesis by blast
        qed
      qed
    qed
  qed
  then show ?thesis
  proof cases
    case a
    from ac [of r1] obtain d where d: "append_conversation None (Some r1) (mem w) = Inr d" by blast
    from a r1e have fne: "full \<noteq> []" by blast
    have fc: "fallback_chain env (llm w) (llm_prompt (mem w) u) = Some (r1, [Stream x], l1)"
      using a by (simp add: fallback_chain_def x_def [symmetric] st r1_def full_def)
    have lr: "\<And>env2. llm_stream env2 = llm_stream env \<Longrightarrow> llm_send env2 = llm_send env
        \<Longrightarrow> llm_reset env2 = llm_reset env \<Longrightarrow>
      llm_respond env2 u w = (Inr r1, w\<lparr>llm := l1, mem := d,
        out := out w @ (Stream x # Print ''Orion: '' # map Print full @ [Print nl]) @ speech env2 r1\<rparr>)"
      using a fne d
      by (simp add: llm_respond_def fs x st Let_def full_def [symmetric] r1_def [symmetric]
          emit_def tts_speak_emit)
    have "\<exists>reply calls l' d es.
           fallback_chain env (llm w) (llm_prompt (mem w) u) = Some (reply, calls, l')
           \<and> reply \<noteq> []
           \<and> append_conversation None (Some reply) (mem w) = Inr d
           \<and> filter is_llm_call es = calls
           \<and> filter is_speech es = []
           \<and> (full = [] \<longrightarrow> printed es = ''Orion: '' @ reply @ nl)
           \<and> (strip (concat full) \<noteq> [] \<longrightarrow>
                reply = strip (concat full) \<and> printed es = ''Orion: '' @ concat full @ nl)
           \<and> (\<forall>env2. llm_stream env2 = llm_stream env \<and> llm_send env2 = llm_send env
                  \<and> llm_reset env2 = llm_reset env \<longrightarrow>
                llm_respond env2 u w
                  = (Inr reply, w\<lparr>llm := l', mem := d, out := out w @ es @ speech env2 reply\<rparr>))"
      using fc a d lr isp fne
      by (intro exI [of _ r1] exI [of _ "[Stream x]"] exI [of _ l1] exI [of _ d]
          exI [of _ "Stream x # Print ''Orion: '' # map Print full @ [Print nl]"])
         (simp add: r1_def [symmetric])
    then show ?thesis unfolding sc by (rule disjI2)
  next
    case b
    define fin where "fin = (if full = [] then [Print (''Orion: '' @ r2 @ nl)] else [])"
    from ac [of r2] obtain d where d: "append_conversation None (Some r2) (mem w) = Inr d" by blast
    have fc: "fallback_chain env (llm w) (llm_prompt (mem w) u) = Some (r2, [Stream x, Send x], l2)"
      using b by (simp add: fallback_chain_def x_def [symmetric] st s2 r1_def full_def)
    have lr: "\<And>env2. llm_stream env2 = llm_stream env \<Longrightarrow> llm_send env2 = llm_send env
        \<Longrightarrow> llm_reset env2 = llm_reset env \<Longrightarrow>
      llm_respond env2 u w = (Inr r2, w\<lparr>llm := l2, mem := d,
        out := out w @ (Stream x # pr @ Send x # fin) @ speech env2 r2\<rparr>)"
      using b d
      by (simp add: llm_respond_def fs x st s2 Let_def full_def [symmetric] r1_def [symmetric]
          emit_def tts_speak_emit pr_def fin_def)
    have f1: "filter is_llm_call (Stream x # pr @ Send x # fin) = [Stream x, Send x]"
      and f2: "filter is_speech (Stream x # pr @ Send x # fin) = []"
      and f3: "full = [] \<Longrightarrow> printed (Stream x # pr @ Send x # fin) = ''Orion: '' @ r2 @ nl"
      by (simp_all add: pr_def fin_def isp)
    have "\<exists>reply calls l' d es.
           fallback_chain env (llm w) (llm_prompt (mem w) u) = Some (reply, calls, l')
           \<and> reply \<noteq> []
           \<and> append_conversation None (Some reply) (mem w) = Inr d
           \<and> filter is_llm_call es = calls
           \<and> filter is_speech es = []
           \<and> (full = [] \<longrightarrow> printed es = ''Orion: '' @ reply @ nl)
           \<and> (strip (concat full) \<noteq> [] \<longrightarrow>
                reply = strip (concat full) \<and> printed es = ''Orion: '' @ concat full @ nl)
           \<and> (\<forall>env2. llm_stream env2 = llm_stream env \<and> llm_send env2 = llm_send env
                  \<and> llm_reset env2 = llm_reset env \<longrightarrow>
                llm_respond env2 u w
                  = (Inr reply, w\<lparr>llm := l', mem := d, out := out w @ es @ speech env2 reply\<rparr>))"
      using fc b d lr f1 f2 f3
      by (intro exI [of _ r2] exI [of _ "[Stream x, Send x]"] exI [of _ l2] exI [of _ d]
          exI [of _ "Stream x # pr @ Send x # fin"]) (simp add: r1_def [symmetric])
    then show ?thesis unfolding sc by (rule disjI2)
  next
    case n
    have fc: "fallback_chain env (llm w) (llm_prompt (mem w) u) = None"
      using n by (simp add: fallback_chain_def x_def [symmetric] st s2 r1_def full_def)
    have lr: "\<And>env2. llm_stream env2 = llm_stream env \<Longrightarrow> llm_send env2 = llm_send env
        \<Longrightarrow> llm_reset env2 = llm_reset env \<Longrightarrow>
      llm_respond env2 u w
        = (Inl BackendError, w\<lparr>llm := l2, out := out w @ (Stream x # pr @ [Send x, Reset])\<rparr>)"
      using n
      by (simp add: llm_respond_def fs x st s2 Let_def full_def [symmetric] r1_def [symmetric]
          emit_def pr_def)
    have "fallback_chain env (llm w) (llm_prompt (mem w) u) = None
            \<and> (\<exists>l es. \<forall>env2. llm_stream env2 = llm_stream env \<and> llm_send env2 = llm_send env
                  \<and> llm_reset env2 = llm_reset env \<longrightarrow>
                llm_respond env2 u w = (Inl BackendError, w\<lparr>llm := l, out := out w @ es\<rparr>))"
      using fc lr
      by (intro conjI exI [of _ l2] exI [of _ "Stream x # pr @ [Send x, Reset]"]) simp_all
    then show ?thesis by (rule disjI1)
  next
    case (c l2' r3 l3)
    define fin where "fin = (if full = [] then [Print (''Orion: '' @ r3 @ nl)] else [])"
    from ac [of r3] obtain d where d: "append_conversation None (Some r3) (mem w) = Inr d" by blast
    have fc: "fallback_chain env (llm w) (llm_prompt (mem w) u)
        = Some (r3, [Stream x, Send x, Reset, Send x], l3)"
      using c by (simp add: fallback_chain_def x_def [symmetric] st s2 r1_def full_def)
    have lr: "\<And>env2. llm_stream env2 = llm_stream env \<Longrightarrow> llm_send env2 = llm_send env
        \<Longrightarrow> llm_reset env2 = llm_reset env \<Longrightarrow>
      llm_respond env2 u w = (Inr r3, w\<lparr>llm := l3, mem := d,
        out := out w @ (Stream x # pr @ Send x # Reset # Send x # fin) @ speech env2 r3\<rparr>)"
      using c d
      by (simp add: llm_respond_def fs x st s2 Let_def full_def [symmetric] r1_def [symmetric]
          emit_def tts_speak_emit pr_def fin_def)
    have f1: "filter is_llm_call (Stream x # pr @ Send x # Reset # Send x # fin)
        = [Stream x, Send x, Reset, Send x]"
      and f2: "filter is_speech (Stream x # pr @ Send x # Reset # Send x # fin) = []"
      and f3: "full = [] \<Longrightarrow>
          printed (Stream x # pr @ Send x # Reset # Send x # fin) = ''Orion: '' @ r3 @ nl"
      by (simp_all add: pr_def fin_def isp)
    have "\<exists>reply calls l' d es.
           fallback_chain env (llm w) (llm_prompt (mem w) u) = Some (reply, calls, l')
           \<and> reply \<noteq> []
           \<and> append_conversation None (Some reply) (mem w) = Inr d
           \<and> filter is_llm_call es = calls
           \<and> filter is_speech es = []
           \<and> (full = [] \<longrightarrow> printed es = ''Orion: '' @ reply @ nl)
           \<and> (strip (concat full) \<noteq> [] \<longrightarrow>
                reply = strip (concat full) \<and> printed es = ''Orion: '' @ concat full @ nl)
           \<and> (\<forall>env2. llm_stream env2 = llm_stream env \<and> llm_send env2 = llm_send env
                  \<and> llm_reset env2 = llm_reset env \<longrightarrow>
                llm_respond env2 u w
                  = (Inr reply, w\<lparr>llm := l', mem := d, out := out w @ es @ speech env2 reply\<rparr>))"
      using fc c(1,5) d lr f1 f2 f3
      by (intro exI [of _ r3] exI [of _ "[Stream x, Send x, Reset, Send x]"] exI [of _ l3]
          exI [of _ d] exI [of _ "Stream x # pr @ Send x # Reset # Send x # fin"])
         (simp add: r1_def [symmetric])
    then show ?thesis unfolding sc by (rule disjI2)
  next
    case (d l2' l3)
    define fin where "fin = (if full = [] then [Print (''Orion: '' @ apology @ nl)] else [])"
    from ac [of apology] obtain d' where d': "append_conversation None (Some apology) (mem w) = Inr d'"
      by blast
    have fc: "fallback_chain env (llm w) (llm_prompt (mem w) u)
        = Some (apology, [Stream x, Send x, Reset, Send x], l3)"
      using d by (simp add: fallback_chain_def x_def [symmetric] st s2 r1_def full_def)
    have lr: "\<And>env2. llm_stream env2 = llm_stream env \<Longrightarrow> llm_send env2 = llm_send env
        \<Longrightarrow> llm_reset env2 = llm_reset env \<Longrightarrow>
      llm_respond env2 u w = (Inr apology, w\<lparr>llm := l3, mem := d',
        out := out w @ (Stream x # pr @ Send x # Reset # Send x # fin) @ speech env2 apology\<rparr>)"
      using d d'
      by (simp add: llm_respond_def fs x st s2 Let_def full_def [symmetric] r1_def [symmetric]
          emit_def tts_speak_emit pr_def fin_def)
    have f1: "filter is_llm_call (Stream x # pr @ Send x # Reset # Send x # fin)
        = [Stream x, Send x, Reset, Send x]"
      and f2: "filter is_speech (Stream x # pr @ Send x # Reset # Send x # fin) = []"
      and f3: "full = [] \<Longrightarrow>
          printed (Stream x # pr @ Send x # Reset # Send x # fin) = ''Orion: '' @ apology @ nl"
      by (simp_all add: pr_def fin_def isp)
    have "\<exists>reply calls l' d es.
           fallback_chain env (llm w) (llm_prompt (mem w) u) = Some (reply, calls, l')
           \<and> reply \<noteq> []
           \<and> append_conversation None (Some reply) (mem w) = Inr d
           \<and> filter is_llm_call es = calls
           \<and> filter is_speech es = []
           \<and> (full = [] \<longrightarrow> printed es = ''Orion: '' @ reply @ nl)
           \<and> (strip (concat full) \<noteq> [] \<longrightarrow>
                reply = strip (concat full) \<and> printed es = ''Orion: '' @ concat full @ nl)
           \<and> (\<forall>env2. llm_stream env2 = llm_stream env \<and> llm_send env2 = llm_send env
                  \<and> llm_reset env2 = llm_reset env \<longrightarrow>
                llm_respond env2 u w
                  = (Inr reply, w\<lparr>llm := l', mem := d, out := out w @ es @ speech env2 reply\<rparr>))"
      using fc d(1) d' lr f1 f2 f3 apology_nonempty
      by (intro exI [of _ apology] exI [of _ "[Stream x, Send x, Reset, Send x]"] exI [of _ l3]
          exI [of _ d'] exI [of _ "Stream x # pr @ Send x # Reset # Send x # fin"])
         (simp add: r1_def [symmetric])
    then show ?thesis unfolding sc by (rule disjI2)
  qed
qed


lemma filter_not_speech_speech [simp]: "filter (\<lambda>e. \<not> is_speech e) (speech env t) = []"
  by (simp add: speech_def)

lemma filter_speech_none: "filter is_speech es = [] \<Longrightarrow> filter (\<lambda>e. \<not> is_speech e) es = es"
  by (induction es) (auto split: if_splits)

lemma filter_llm_call_speech [simp]: "filter is_llm_call (speech env t) = []"
  by (simp add: speech_def)

text \<open>
  At a stream whose only chunk is a space, the concatenated text is not empty, so the
  stages as the specification words them stop at the stream. \<open>llm_respond\<close> strips the
  text, goes on to \<open>send\<close> and replies \<open>Hello\<close>; what it printed is the chunk, and with
  \<open>speak\<close> failing the reply is neither printed nor spoken.
\<close>

theorem whitespace_stream_counterexample:
  "spec_stream_stage blank_stream_env (llm example_world) (llm_prompt (mem example_world) ''ping'')
     = Some '' ''
   \<and> fst (llm_respond blank_stream_env ''ping'' example_world) = Inr ''Hello''
   \<and> filter is_llm_call
        (new_events example_world (snd (llm_respond blank_stream_env ''ping'' example_world)))
     = [Stream (llm_prompt (mem example_world) ''ping''),
        Send (llm_prompt (mem example_world) ''ping'')]
   \<and> printed (new_events example_world (snd (llm_respond blank_stream_env ''ping'' example_world)))
     = ''Orion:  '' @ nl
   \<and> filter is_speech
        (new_events example_world (snd (llm_respond blank_stream_env ''ping'' example_world)))
     = [PrintTtsError]"
  by code_simp

text \<open>
  Claim C1, as the code has it. Take a store whose file reads as a document. The stages
  come in their order: the stream, whose non-empty chunks are joined and stripped of the
  white space around them; if that text is empty one \<open>send\<close> on the same session; if that
  is empty too one \<open>reset\<close> and a \<open>send\<close>; then the fixed apology. They yield a reply
  whenever \<open>reset\<close> returns, and when they do, \<open>llm_respond\<close> returns that reply after
  exactly those calls on the session: the reply is not empty, the log gains exactly one
  turn, a bot turn with that reply (the cap applied), and the facts stay. The reply is
  printed: as the line \<open>Orion: reply\<close> when the stream gave no non-empty chunk, and chunk by
  chunk when it is the text of the stream. Whether \<open>speak\<close> raises changes neither the
  reply, nor the store and the session left behind, nor anything printed or done besides
  the speech itself.
\<close>

theorem llm_respond_stages:
  assumes "readable (mem w)"
  shows "((\<forall>l. llm_reset env l \<noteq> None) \<longrightarrow>
            fallback_chain env (llm w) (llm_prompt (mem w) u) \<noteq> None)
       \<and> (\<forall>reply calls l'.
            fallback_chain env (llm w) (llm_prompt (mem w) u) = Some (reply, calls, l') \<longrightarrow>
            (\<exists>w'. llm_respond env u w = (Inr reply, w')
               \<and> reply \<noteq> []
               \<and> filter is_llm_call (new_events w w') = calls
               \<and> llm w' = l'
               \<and> stored_turns (mem w')
                   = last_n MAX_CONVERSATIONS
                       (stored_turns (mem w) @ [\<lparr>user = None, bot = Some reply\<rparr>])
               \<and> stored_facts (mem w') = stored_facts (mem w)
               \<and> (streamed_chunks env (llm w) (llm_prompt (mem w) u) = [] \<longrightarrow>
                    printed (new_events w w') = ''Orion: '' @ reply @ nl)
               \<and> (strip (concat (streamed_chunks env (llm w) (llm_prompt (mem w) u))) \<noteq> [] \<longrightarrow>
                    reply = strip (concat (streamed_chunks env (llm w) (llm_prompt (mem w) u)))
                    \<and> calls = [Stream (llm_prompt (mem w) u)]
                    \<and> printed (new_events w w')
                        = ''Orion: '' @ concat (streamed_chunks env (llm w) (llm_prompt (mem w) u)) @ nl)
               \<and> (\<forall>f. \<exists>w''. llm_respond (env\<lparr>speak_raises := f\<rparr>) u w = (Inr reply, w'')
                      \<and> mem w'' = mem w' \<and> llm w'' = llm w'
                      \<and> filter (\<lambda>e. \<not> is_speech e) (out w'')
                          = filter (\<lambda>e. \<not> is_speech e) (out w'))))"
proof (intro conjI allI impI)
  assume rs: "\<forall>l. llm_reset env l \<noteq> None"
  obtain chunks l1 where st: "llm_stream env (llm w) (llm_prompt (mem w) u) = (chunks, l1)"
    by (cases "llm_stream env (llm w) (llm_prompt (mem w) u)")
  obtain r2 l2 where s2: "llm_send env l1 (llm_prompt (mem w) u) = (r2, l2)"
    by (cases "llm_send env l1 (llm_prompt (mem w) u)")
  from rs have "llm_reset env l2 \<noteq> None" by (rule spec)
  then obtain l2' where re: "llm_reset env l2 = Some l2'" by auto
  obtain r3 l3 where s3: "llm_send env l2' (llm_prompt (mem w) u) = (r3, l3)"
    by (cases "llm_send env l2' (llm_prompt (mem w) u)")
  show "fallback_chain env (llm w) (llm_prompt (mem w) u) \<noteq> None"
    by (simp add: fallback_chain_def st s2 re s3 Let_def)
next
  fix reply calls l'
  assume fc: "fallback_chain env (llm w) (llm_prompt (mem w) u) = Some (reply, calls, l')"
  define sc where "sc = streamed_chunks env (llm w) (llm_prompt (mem w) u)"
  from llm_respond_readable [OF assms, of env u] fc
  obtain d es where
    ne: "reply \<noteq> []"
    and d: "append_conversation None (Some reply) (mem w) = Inr d"
    and ca: "filter is_llm_call es = calls"
    and sp: "filter is_speech es = []"
    and p1: "sc = [] \<Longrightarrow> printed es = ''Orion: '' @ reply @ nl"
    and p2: "strip (concat sc) \<noteq> [] \<Longrightarrow>
               reply = strip (concat sc) \<and> printed es = ''Orion: '' @ concat sc @ nl"
    and lr: "\<And>env2. llm_stream env2 = llm_stream env \<Longrightarrow> llm_send env2 = llm_send env \<Longrightarrow>
          llm_reset env2 = llm_reset env \<Longrightarrow>
          llm_respond env2 u w
            = (Inr reply, w\<lparr>llm := l', mem := d, out := out w @ es @ speech env2 reply\<rparr>)"
    unfolding sc_def by auto
  have p3: "strip (concat sc) \<noteq> [] \<Longrightarrow> calls = [Stream (llm_prompt (mem w) u)]"
    using fc
    by (cases "llm_stream env (llm w) (llm_prompt (mem w) u)")
       (simp add: fallback_chain_def sc_def streamed_chunks_def Let_def)
  from append_conversation_step [OF assms, of None "Some reply"] d
  have t: "stored_turns d = last_n MAX_CONVERSATIONS (stored_turns (mem w) @ [\<lparr>user = None, bot = Some reply\<rparr>])"
    and fa: "stored_facts d = stored_facts (mem w)" by auto
  define w' where "w' = w\<lparr>llm := l', mem := d, out := out w @ es @ speech env reply\<rparr>"
  have r: "llm_respond env u w = (Inr reply, w')"
    using lr [of env] by (simp add: w'_def)
  have ne': "new_events w w' = es @ speech env reply"
    by (simp add: w'_def new_events_def)
  have ev: "filter is_llm_call (new_events w w') = calls"
    using ca by (simp add: ne')
  have q1: "sc = [] \<longrightarrow> printed (new_events w w') = ''Orion: '' @ reply @ nl"
    using p1 by (simp add: ne')
  have q2: "strip (concat sc) \<noteq> [] \<longrightarrow>
             reply = strip (concat sc) \<and> calls = [Stream (llm_prompt (mem w) u)]
             \<and> printed (new_events w w') = ''Orion: '' @ concat sc @ nl"
    using p2 p3 by (simp add: ne')
  have tts: "\<exists>w''. llm_respond (env\<lparr>speak_raises := f\<rparr>) u w = (Inr reply, w'')
        \<and> mem w'' = mem w' \<and> llm w'' = llm w'
        \<and> filter (\<lambda>e. \<not> is_speech e) (out w'') = filter (\<lambda>e. \<not> is_speech e) (out w')" for f
    using lr [of "env\<lparr>speak_raises := f\<rparr>"] by (simp add: w'_def)
  have mw: "mem w' = d" "llm w' = l'" by (simp_all add: w'_def)
  show "\<exists>w'. llm_respond env u w = (Inr reply, w')
               \<and> reply \<noteq> []
               \<and> filter is_llm_call (new_events w w') = calls
               \<and> llm w' = l'
               \<and> stored_turns (mem w')
                   = last_n MAX_CONVERSATIONS
                       (stored_turns (mem w) @ [\<lparr>user = None, bot = Some reply\<rparr>])
               \<and> stored_facts (mem w') = stored_facts (mem w)
               \<and> (streamed_chunks env (llm w) (llm_prompt (mem w) u) = [] \<longrightarrow>
                    printed (new_events w w') = ''Orion: '' @ reply @ nl)
               \<and> (strip (concat (streamed_chunks env (llm w) (llm_prompt (mem w) u))) \<noteq> [] \<longrightarrow>
                    reply = strip (concat (streamed_chunks env (llm w) (llm_prompt (mem w) u)))
                    \<and> calls = [Stream (llm_prompt (mem w) u)]
                    \<and> printed (new_events w w')
                        = ''Orion: '' @ concat (streamed_chunks env (llm w) (llm_prompt (mem w) u)) @ nl)
               \<and> (\<forall>f. \<exists>w''. llm_respond (env\<lparr>speak_raises := f\<rparr>) u w = (Inr reply, w'')
                      \<and> mem w'' = mem w' \<and> llm w'' = llm w'
                      \<and> filter (\<lambda>e. \<not> is_speech e) (out w'')
                          = filter (\<lambda>e. \<not> is_speech e) (out w'))"
    unfolding sc_def [symmetric]
    using r ne ev t fa q1 q2 tts mw
    by (intro exI [of _ w']) (simp only: simp_thms)
qed

theorem llm_respond_stages_witness:
  "readable (mem example_world)
   \<and> (\<forall>l. llm_reset example_env l \<noteq> None)
   \<and> streamed_chunks example_env (llm example_world)
       (llm_prompt (mem example_world) ''tell me a joke'') = []
   \<and> (\<exists>w'. llm_respond example_env ''tell me a joke'' example_world = (Inr ''Hello'', w')
         \<and> stored_turns (mem w') = [\<lparr>user = None, bot = Some ''Hello''\<rparr>]
         \<and> printed (new_events example_world w') = ''Orion: Hello'' @ nl
         \<and> filter is_llm_call (new_events example_world w')
             = [Stream (llm_prompt (mem example_world) ''tell me a joke''),
                Send (llm_prompt (mem example_world) ''tell me a joke''), Reset,
                Send (llm_prompt (mem example_world) ''tell me a joke'')])"
proof -
  let ?x = "llm_prompt (mem example_world) ''tell me a joke''"
  have r: "readable (mem example_world)" by code_simp
  have rs: "\<forall>l. llm_reset example_env l \<noteq> None" by (simp add: example_env_def)
  have l: "llm example_world = 0" by (simp add: example_world_def)
  have sc: "streamed_chunks example_env (llm example_world) ?x = []"
    by (simp add: streamed_chunks_def example_env_def)
  have c: "fallback_chain example_env (llm example_world) ?x
      = Some (''Hello'', [Stream ?x, Send ?x, Reset, Send ?x], Suc 0)"
    by (simp add: l fallback_chain_def example_env_def strip_def lstrip_def rstrip_def)
  have t: "stored_turns (mem example_world) = []" by code_simp
  note th = llm_respond_stages [OF r, of example_env "''tell me a joke''"]
  from th [THEN conjunct2, rule_format, OF c]
  obtain w' where
    a: "llm_respond example_env ''tell me a joke'' example_world = (Inr ''Hello'', w')"
    and e: "filter is_llm_call (new_events example_world w') = [Stream ?x, Send ?x, Reset, Send ?x]"
    and s: "stored_turns (mem w')
        = last_n MAX_CONVERSATIONS (stored_turns (mem example_world) @ [\<lparr>user = None, bot = Some ''Hello''\<rparr>])"
    and p: "streamed_chunks example_env (llm example_world) ?x = [] \<longrightarrow>
        printed (new_events example_world w') = ''Orion: '' @ ''Hello'' @ nl"
    by blast
  from p sc have p': "printed (new_events example_world w') = ''Orion: Hello'' @ nl" by simp
  from s t have s': "stored_turns (mem w') = [\<lparr>user = None, bot = Some ''Hello''\<rparr>]"
    by (simp add: last_n_def MAX_CONVERSATIONS_def)
  from a e s' p' have "\<exists>w'. llm_respond example_env ''tell me a joke'' example_world = (Inr ''Hello'', w')
         \<and> stored_turns (mem w') = [\<lparr>user = None, bot = Some ''Hello''\<rparr>]
         \<and> printed (new_events example_world w') = ''Orion: Hello'' @ nl
         \<and> filter is_llm_call (new_events example_world w') = [Stream ?x, Send ?x, Reset, Send ?x]"
    by blast
  with r rs sc show ?thesis by blast
qed

section \<open>When the legacy router is consulted\<close>

lemma say_out: "out (snd (say env t w)) = out w @ Print (''Orion: '' @ t @ nl) # speech env t"
  by (simp add: say_def Let_def tts_speak_emit split: sum.splits)

lemma say_cases:
  obtains (ok) d where "readable (mem w)" "append_conversation None (Some t) (mem w) = Inr d"
      "readable d"
      "stored_turns d = last_n MAX_CONVERSATIONS (stored_turns (mem w) @ [\<lparr>user = None, bot = Some t\<rparr>])"
      "stored_facts d = stored_facts (mem w)"
      "say env t w = (Inr (), (emit (Print (''Orion: '' @ t @ nl) # speech env t) w)\<lparr>mem := d\<rparr>)"
    | (err) e where "\<not> readable (mem w)"
      "say env t w = (Inl e, emit (Print (''Orion: '' @ t @ nl) # speech env t) w)"
proof (cases "readable (mem w)")
  case True
  from say_readable [OF True, of t env] ok True show ?thesis by blast
next
  case False
  from say_unreadable [OF False, of env t] err False show ?thesis by blast
qed

lemma relevant_facts_unreadable: "\<not> readable d \<Longrightarrow> \<exists>e. relevant_facts d u n = Inl e"
  by (cases "read_dict d") (simp_all add: readable_def relevant_facts_def facts_like_def)

lemma llm_respond_unreadable:
  "\<not> readable (mem w) \<Longrightarrow> \<exists>e. llm_respond env u w = (Inl e, w)"
  using relevant_facts_unreadable [of "mem w" u 6] by (auto simp: llm_respond_def)

lemma llm_stage_cases:
  obtains (ok) reply es d l' where "readable (mem w)"
      "llm_stage env u w = (Inr Continue, w\<lparr>llm := l', mem := d, out := out w @ es\<rparr>)"
      "stored_turns d = last_n MAX_CONVERSATIONS (stored_turns (mem w) @ [\<lparr>user = None, bot = Some reply\<rparr>])"
    | (err) e w' es where "llm_stage env u w = (Inl e, w')" "out w' = out w @ es"
proof (cases "readable (mem w)")
  case True
  from llm_respond_readable [OF True, of env u]
  consider (raised) l es where
      "llm_respond env u w = (Inl BackendError, w\<lparr>llm := l, out := out w @ es\<rparr>)"
    | (replied) reply l' d es where
      "append_conversation None (Some reply) (mem w) = Inr d"
      "llm_respond env u w
            = (Inr reply, w\<lparr>llm := l', mem := d, out := out w @ es @ speech env reply\<rparr>)"
    by blast
  then show ?thesis
  proof cases
    case (raised l es)
    then have "llm_stage env u w = (Inl BackendError, w\<lparr>llm := l, out := out w @ es\<rparr>)"
      by (simp add: llm_stage_def continue_after_def)
    with err [of BackendError "w\<lparr>llm := l, out := out w @ es\<rparr>" es] show ?thesis by simp
  next
    case (replied reply l' d es)
    from append_conversation_step [OF True, of None "Some reply"] replied(1)
    have t: "stored_turns d = last_n MAX_CONVERSATIONS (stored_turns (mem w) @ [\<lparr>user = None, bot = Some reply\<rparr>])"
      by auto
    from replied(2) have "llm_stage env u w
        = (Inr Continue, w\<lparr>llm := l', mem := d, out := out w @ (es @ speech env reply)\<rparr>)"
      by (simp add: llm_stage_def continue_after_def)
    with True t ok show ?thesis by blast
  qed
next
  case False
  from llm_respond_unreadable [OF False, of env u] obtain e where "llm_respond env u w = (Inl e, w)"
    by blast
  then have "llm_stage env u w = (Inl e, w)" by (simp add: llm_stage_def continue_after_def)
  with err [of e w "[]"] show ?thesis by simp
qed

lemma llm_stage_out: "\<exists>es. out (snd (llm_stage env u w)) = out w @ es"
  by (rule llm_stage_cases [of w env u]) auto

lemma legacy_stage_out: "\<exists>es. out (snd (legacy_stage env u w)) = out w @ LegacyRoute u # es"
proof (cases "legacy_route u")
  case None
  with llm_stage_out [of env u "emit [LegacyRoute u] w"] show ?thesis
    by (auto simp: legacy_stage_def Let_def)
next
  case (Some hit)
  obtain n m where hit: "hit = (n, m)" by (cases hit)
  obtain res d where rr: "registry_run env n u (mem w) = (res, d)" by (cases "registry_run env n u (mem w)")
  define w2 where "w2 = emit [RunLegacy n u] ((emit [LegacyRoute u] w)\<lparr>mem := d\<rparr>)"
  have o2: "out w2 = out w @ [LegacyRoute u, RunLegacy n u]" by (simp add: w2_def)
  show ?thesis
  proof (cases res)
    case None
    from llm_stage_out [of env u "emit [PrintLegacyError n] w2"] o2 None Some hit rr
    show ?thesis
      by (auto simp: legacy_stage_def Let_def w2_def)
  next
    case r: (Some result)
    show ?thesis
    proof (cases rule: say_cases [of w2 result env])
      case (ok d')
      with o2 r Some hit rr show ?thesis
        by (auto simp: legacy_stage_def Let_def w2_def)
    next
      case (err e)
      from llm_stage_out [of env u "emit [PrintLegacyError n]
          (emit (Print (''Orion: '' @ result @ nl) # speech env result) w2)"]
      obtain es where "out (snd (llm_stage env u (emit [PrintLegacyError n]
          (emit (Print (''Orion: '' @ result @ nl) # speech env result) w2))))
         = out w @ [LegacyRoute u, RunLegacy n u] @ (Print (''Orion: '' @ result @ nl) # speech env result)
             @ [PrintLegacyError n] @ es"
        using o2 by auto
      with err r Some hit rr show ?thesis
        by (auto simp: legacy_stage_def Let_def w2_def)
    qed
  qed
qed


lemma legacy_route_not_speech [simp]: "LegacyRoute v \<notin> set (speech env t)"
  by (simp add: speech_def)

lemma plugin_stage_skill_ok:
  assumes "pr_route (router w) u = Some sk" and "sk_run sk u (mem w) = (Some result, d)"
    and "readable d"
  shows "\<exists>d'. plugin_stage env u w
           = (Inr Continue,
              w\<lparr>mem := d', out := out w @ [Route u, RunSkill (sk_name sk) u,
                                               Print (''Orion: '' @ result @ nl)] @ speech env result\<rparr>)
         \<and> stored_turns d' = last_n MAX_CONVERSATIONS (stored_turns d @ [\<lparr>user = None, bot = Some result\<rparr>])"
proof -
  define w2 where "w2 = emit [RunSkill (sk_name sk) u] ((emit [Route u] w)\<lparr>mem := d\<rparr>)"
  have "readable (mem w2)" using assms(3) by (simp add: w2_def)
  from say_readable [OF this, of result env]
  obtain d' where d': "stored_turns d' = last_n MAX_CONVERSATIONS (stored_turns d @ [\<lparr>user = None, bot = Some result\<rparr>])"
    "say env result w2 = (Inr (), (emit (Print (''Orion: '' @ result @ nl) # speech env result) w2)\<lparr>mem := d'\<rparr>)"
    by (auto simp: w2_def)
  have "plugin_stage env u w = (Inr Continue, (emit (Print (''Orion: '' @ result @ nl) # speech env result) w2)\<lparr>mem := d'\<rparr>)"
    using assms(1,2) d'(2) by (simp add: plugin_stage_def Let_def w2_def)
  then show ?thesis
    using d'(1) by (intro exI [of _ d']) (simp add: w2_def emit_def)
qed

lemma plugin_stage_falls_to_legacy:
  assumes "case pr_route (router w) u of None \<Rightarrow> True
           | Some sk \<Rightarrow> (case sk_run sk u (mem w) of (None, d) \<Rightarrow> True
                          | (Some result, d) \<Rightarrow> \<not> readable d)"
  shows "LegacyRoute u \<in> set (new_events w (snd (plugin_stage env u w)))"
proof (cases "pr_route (router w) u")
  case None
  from legacy_stage_out [of env u "emit [Route u] w"] None show ?thesis
    by (auto simp: plugin_stage_def Let_def new_events_def)
next
  case (Some sk)
  obtain res d where rr: "sk_run sk u (mem w) = (res, d)" by (cases "sk_run sk u (mem w)")
  define w2 where "w2 = emit [RunSkill (sk_name sk) u] ((emit [Route u] w)\<lparr>mem := d\<rparr>)"
  have o2: "out w2 = out w @ [Route u, RunSkill (sk_name sk) u]" by (simp add: w2_def)
  show ?thesis
  proof (cases res)
    case None
    from legacy_stage_out [of env u "emit [PrintSkillError (sk_name sk)] w2"] o2 None Some rr
    show ?thesis
      by (auto simp: plugin_stage_def Let_def w2_def new_events_def)
  next
    case r: (Some result)
    with assms Some rr have "\<not> readable (mem w2)" by (simp add: w2_def)
    from say_unreadable [OF this, of env result]
    obtain e where e: "say env result w2
        = (Inl e, emit (Print (''Orion: '' @ result @ nl) # speech env result) w2)" by blast
    from legacy_stage_out [of env u "emit [PrintSkillError (sk_name sk)]
        (emit (Print (''Orion: '' @ result @ nl) # speech env result) w2)"]
    obtain es where "out (snd (legacy_stage env u (emit [PrintSkillError (sk_name sk)]
        (emit (Print (''Orion: '' @ result @ nl) # speech env result) w2))))
       = out w @ [Route u, RunSkill (sk_name sk) u] @ (Print (''Orion: '' @ result @ nl) # speech env result)
           @ [PrintSkillError (sk_name sk)] @ LegacyRoute u # es"
      using o2 by auto
    with e r Some rr show ?thesis
      by (auto simp: plugin_stage_def Let_def w2_def new_events_def)
  qed
qed

text \<open>
  With a skill matched by the primary router the legacy router is still consulted when the
  skill's \<open>run\<close> raises.
\<close>

theorem legacy_after_failed_skill_counterexample:
  "map_option sk_name (pr_route (router boom_world) ''boom'') = Some ''boom''
   \<and> LegacyRoute ''boom'' \<in> set (out (snd (plugin_stage example_env ''boom'' boom_world)))"
  by code_simp

text \<open>
  Claim C2, as the code has it. The legacy rule table is consulted exactly when the primary
  router finds no skill for the utterance or the skill it found fails inside the \<open>try\<close>
  (its \<open>run\<close> raises, or \<open>say\<close> raises because the store cannot be read). When the
  primary router returns a skill that runs and whose reply is said, the pass ends there:
  the legacy router is not consulted, and neither is the language model.
\<close>

theorem legacy_consulted_iff:
  "((\<exists>v. LegacyRoute v \<in> set (new_events w (snd (plugin_stage env u w))))
      \<longleftrightarrow> (case pr_route (router w) u of
             None \<Rightarrow> True
           | Some sk \<Rightarrow> (case sk_run sk u (mem w) of
                           (None, d) \<Rightarrow> True
                         | (Some result, d) \<Rightarrow> \<not> readable d)))
   \<and> (pr_route (router w) u = Some sk \<and> sk_run sk u (mem w) = (Some result, d) \<and> readable d \<longrightarrow>
        fst (plugin_stage env u w) = Inr Continue
        \<and> new_events w (snd (plugin_stage env u w))
            = [Route u, RunSkill (sk_name sk) u, Print (''Orion: '' @ result @ nl)] @ speech env result)
   \<and> (pr_route (router w) u = None \<longrightarrow>
        take 2 (new_events w (snd (plugin_stage env u w))) = [Route u, LegacyRoute u])"
proof -
  let ?c = "case pr_route (router w) u of
             None \<Rightarrow> True
           | Some sk \<Rightarrow> (case sk_run sk u (mem w) of
                           (None, d) \<Rightarrow> True
                         | (Some result, d) \<Rightarrow> \<not> readable d)"
  have a: "?c \<Longrightarrow> \<exists>v. LegacyRoute v \<in> set (new_events w (snd (plugin_stage env u w)))"
    using plugin_stage_falls_to_legacy [where w=w and u=u and env=env] by blast
  have b: "\<not> ?c \<Longrightarrow> \<not> (\<exists>v. LegacyRoute v \<in> set (new_events w (snd (plugin_stage env u w))))"
  proof -
    assume n: "\<not> ?c"
    then obtain sk' where sk': "pr_route (router w) u = Some sk'" by (cases "pr_route (router w) u") auto
    obtain res d' where rr: "sk_run sk' u (mem w) = (res, d')" by (cases "sk_run sk' u (mem w)")
    from n sk' rr obtain result' where res: "res = Some result'" and rd: "readable d'"
      by (cases res) auto
    from plugin_stage_skill_ok [OF sk' rr [unfolded res] rd, of env]
    show ?thesis by (auto simp: new_events_def)
  qed
  have c: "pr_route (router w) u = Some sk \<and> sk_run sk u (mem w) = (Some result, d) \<and> readable d \<longrightarrow>
        fst (plugin_stage env u w) = Inr Continue
        \<and> new_events w (snd (plugin_stage env u w))
            = [Route u, RunSkill (sk_name sk) u, Print (''Orion: '' @ result @ nl)] @ speech env result"
    using plugin_stage_skill_ok [of w u sk result d env] by (auto simp: new_events_def)
  have d: "pr_route (router w) u = None \<longrightarrow>
        take 2 (new_events w (snd (plugin_stage env u w))) = [Route u, LegacyRoute u]"
    using legacy_stage_out [of env u "emit [Route u] w"]
    by (auto simp: plugin_stage_def Let_def new_events_def)
  from a b c d show ?thesis by blast
qed

theorem legacy_consulted_iff_witness:
  "map_option sk_name (pr_route (router hello_world) ''hello there'') = Some ''hello''
   \<and> fst (plugin_stage example_env ''hello there'' hello_world) = Inr Continue
   \<and> new_events hello_world (snd (plugin_stage example_env ''hello there'' hello_world))
       = [Route ''hello there'', RunSkill ''hello'' ''hello there'',
          Print (''Orion: Hello, Benjamin!'' @ nl), Speak ''Hello, Benjamin!'']
   \<and> pr_route (router example_world) ''tell me a joke'' = None
   \<and> take 2 (new_events example_world (snd (plugin_stage example_env ''tell me a joke'' example_world)))
       = [Route ''tell me a joke'', LegacyRoute ''tell me a joke'']"
proof -
  let ?sk = "the (pr_route (router hello_world) ''hello there'')"
  have r: "map_option sk_name (pr_route (router hello_world) ''hello there'') = Some ''hello''"
    by code_simp
  then have p: "pr_route (router hello_world) ''hello there'' = Some ?sk" and n: "sk_name ?sk = ''hello''"
    by auto
  have run: "sk_run ?sk ''hello there'' (mem hello_world) = (Some ''Hello, Benjamin!'', mem hello_world)"
    by code_simp
  have rd: "readable (mem hello_world)" by code_simp
  have sp: "speech example_env ''Hello, Benjamin!'' = [Speak ''Hello, Benjamin!'']"
    by (simp add: speech_def example_env_def)
  have none: "pr_route (router example_world) ''tell me a joke'' = None" by code_simp
  note t1 = legacy_consulted_iff [of hello_world example_env "''hello there''" ?sk "''Hello, Benjamin!''" "mem hello_world"]
  note t2 = legacy_consulted_iff [of example_world example_env "''tell me a joke''" ?sk "[]" Blank]
  from conjunct1 [OF conjunct2 [OF t1]] p run rd
  have a: "fst (plugin_stage example_env ''hello there'' hello_world) = Inr Continue"
    and b: "new_events hello_world (snd (plugin_stage example_env ''hello there'' hello_world))
        = [Route ''hello there'', RunSkill (sk_name ?sk) ''hello there'',
           Print (''Orion: '' @ ''Hello, Benjamin!'' @ nl)] @ speech example_env ''Hello, Benjamin!''"
    by simp_all
  from conjunct2 [OF conjunct2 [OF t2]] none
  have c: "take 2 (new_events example_world (snd (plugin_stage example_env ''tell me a joke'' example_world)))
       = [Route ''tell me a joke'', LegacyRoute ''tell me a joke'']" by simp
  from r a b c none show ?thesis
    by (simp add: n sp)
qed

section \<open>The memory fast path\<close>

lemma recall_Inr_readable: "recall k d = Inr v \<Longrightarrow> readable d"
  by (cases "read_dict d") (simp_all add: recall_def readable_def)

lemma whats_my_name_facts:
  "strip (lower whats_my_name) = whats_my_name"
  "lower whats_my_name = whats_my_name"
  "strip whats_my_name = whats_my_name"
  "re_fullmatch True ADMIN_RELOAD_RE whats_my_name = None"
  "re_fullmatch True LIST_SKILLS_RE whats_my_name = None"
  "re_search True SKILL_CMD_RE whats_my_name = None"
  "re_fullmatch True MEM_LIST_RE whats_my_name = None"
  "re_fullmatch True MEM_GET_RE whats_my_name = None"
  "re_fullmatch True MEM_SET_RE whats_my_name = None"
  "re_search False (Seqs (what_is_my @ [Str ''name'', WordB])) whats_my_name \<noteq> None"
  "whats_my_name \<noteq> []"
  "whats_my_name \<noteq> ''clear''" "whats_my_name \<noteq> ''clear.''" "whats_my_name \<noteq> ''close.''"
  by code_simp+

lemma handle_skill_admin_whats_my_name:
  "handle_skill_admin env whats_my_name w = (Inr False, w)"
  by (simp add: handle_skill_admin_def whats_my_name_facts)

lemma handle_memory_admin_whats_my_name:
  "handle_memory_admin env whats_my_name w = (Inr False, w)"
  by (simp add: handle_memory_admin_def whats_my_name_facts)

lemma memory_answer_whats_my_name:
  assumes "recall ''user_name'' d = Inr (Some ''Ben'')"
  shows "memory_answer d whats_my_name = Inr (Some ''Your name is Ben.'')"
proof -
  have "qmap_answer QMAP d whats_my_name = Some (Inr ''Your name is Ben.'')"
    using assms by (simp add: QMAP_def whats_my_name_facts truthy_def)
  then show ?thesis
    by (simp add: memory_answer_def Let_def whats_my_name_facts)
qed

lemma process_command_whats_my_name:
  assumes "\<not> startswith whats_my_name (lower (wake (wakew w)))"
    and "recall ''user_name'' (mem w) = Inr (Some ''Ben'')"
  shows "\<exists>d. process_command env whats_my_name w
           = (Inr Continue,
              w\<lparr>mem := d, out := out w @ Print (''Orion: Your name is Ben.'' @ nl)
                                          # speech env ''Your name is Ben.''\<rparr>)
          \<and> stored_turns d = last_n MAX_CONVERSATIONS
               (stored_turns (mem w) @ [\<lparr>user = None, bot = Some ''Your name is Ben.''\<rparr>])
          \<and> stored_facts d = stored_facts (mem w)"
proof -
  have ct: "command_text (wakew w) whats_my_name = whats_my_name"
    using assms(1) by (simp add: command_text_def whats_my_name_facts)
  from say_readable [OF recall_Inr_readable [OF assms(2)], of "''Your name is Ben.''" env]
  obtain d where d: "stored_turns d = last_n MAX_CONVERSATIONS
               (stored_turns (mem w) @ [\<lparr>user = None, bot = Some ''Your name is Ben.''\<rparr>])"
    "stored_facts d = stored_facts (mem w)"
    "say env ''Your name is Ben.'' w
       = (Inr (), (emit (Print (''Orion: '' @ ''Your name is Ben.'' @ nl) # speech env ''Your name is Ben.'') w)\<lparr>mem := d\<rparr>)"
    by blast
  have "process_command env whats_my_name w
      = (Inr Continue, (emit (Print (''Orion: '' @ ''Your name is Ben.'' @ nl) # speech env ''Your name is Ben.'') w)\<lparr>mem := d\<rparr>)"
    by (simp add: process_command_def ct whats_my_name_facts handle_skill_admin_whats_my_name
        handle_memory_admin_whats_my_name memory_answer_whats_my_name [OF assms(2)] truthy_def
        d(3) continue_after_def Let_def)
  then show ?thesis
    using d(1,2) by (intro exI [of _ d]) (simp add: emit_def)
qed


lemma route_not_speech [simp]: "Route v \<notin> set (speech env t)"
  by (simp add: speech_def)

text \<open>
  Claim C7. When the assistant is awake, the utterance \<open>what's my name?\<close> is neither a
  sleep phrase nor starts with the wake word, and the fact store maps \<open>user_name\<close> to
  \<open>Ben\<close>, the pass replies \<open>Your name is Ben.\<close> through the memory fast path: the reply is
  printed, spoken (or the speech error reported) and logged as a bot turn, and nothing
  else happens. The primary router, the legacy router and the language model are not
  consulted, and no user turn is logged.
\<close>

theorem memory_fast_path:
  assumes "awake w" and "\<not> heard_sleep (wakew w) whats_my_name"
    and "\<not> startswith whats_my_name (lower (wake (wakew w)))"
    and "recall ''user_name'' (mem w) = Inr (Some ''Ben'')"
  shows "\<exists>w'. run_pass env whats_my_name w = (Inr Continue, w')
           \<and> new_events w w' = Print (''Orion: Your name is Ben.'' @ nl) # speech env ''Your name is Ben.''
           \<and> (\<forall>v. Route v \<notin> set (new_events w w') \<and> LegacyRoute v \<notin> set (new_events w w'))
           \<and> filter is_llm_call (new_events w w') = []
           \<and> llm w' = llm w \<and> router w' = router w \<and> skills w' = skills w
           \<and> stored_turns (mem w') = last_n MAX_CONVERSATIONS
                (stored_turns (mem w) @ [\<lparr>user = None, bot = Some ''Your name is Ben.''\<rparr>])
           \<and> stored_facts (mem w') = stored_facts (mem w)"
proof -
  from process_command_whats_my_name [OF assms(3,4), of env]
  obtain d where pc: "process_command env whats_my_name w
           = (Inr Continue,
              w\<lparr>mem := d, out := out w @ Print (''Orion: Your name is Ben.'' @ nl)
                                          # speech env ''Your name is Ben.''\<rparr>)"
    and t: "stored_turns d = last_n MAX_CONVERSATIONS
               (stored_turns (mem w) @ [\<lparr>user = None, bot = Some ''Your name is Ben.''\<rparr>])"
    and f: "stored_facts d = stored_facts (mem w)"
    by blast
  have "run_pass env whats_my_name w = process_command env whats_my_name w"
    using assms(1,2) by (simp add: run_pass_def whats_my_name_facts)
  with pc t f show ?thesis
    by (intro exI [of _ "w\<lparr>mem := d, out := out w @ Print (''Orion: Your name is Ben.'' @ nl)
                                          # speech env ''Your name is Ben.''\<rparr>"])
       (simp add: new_events_def)
qed

theorem memory_fast_path_witness:
  "awake example_world
   \<and> recall ''user_name'' (mem example_world) = Inr (Some ''Ben'')
   \<and> (\<exists>w'. run_pass example_env whats_my_name example_world = (Inr Continue, w')
         \<and> new_events example_world w'
             = [Print (''Orion: Your name is Ben.'' @ nl), Speak ''Your name is Ben.'']
         \<and> stored_turns (mem w') = [\<lparr>user = None, bot = Some ''Your name is Ben.''\<rparr>])"
proof -
  have a: "awake example_world" by code_simp
  have b: "\<not> heard_sleep (wakew example_world) whats_my_name" by code_simp
  have c: "\<not> startswith whats_my_name (lower (wake (wakew example_world)))" by code_simp
  have d: "recall ''user_name'' (mem example_world) = Inr (Some ''Ben'')" by code_simp
  have s: "speech example_env ''Your name is Ben.'' = [Speak ''Your name is Ben.'']"
    by (simp add: speech_def example_env_def)
  have t: "stored_turns (mem example_world) = []" by code_simp
  from memory_fast_path [OF a b c d, of example_env] a d show ?thesis
    by (auto simp: s t last_n_def MAX_CONVERSATIONS_def)
qed

section \<open>Which turns a pass logs\<close>

lemma last_n_snoc:
  "0 < n \<Longrightarrow> last_n n (xs @ [t]) \<noteq> [] \<and> last (last_n n (xs @ [t])) = t"
  by (simp add: last_n_def)

lemma bot_loggedI:
  assumes "stored_turns d' = last_n MAX_CONVERSATIONS (stored_turns d @ [\<lparr>user = None, bot = Some t\<rparr>])"
  shows "bot_logged d d'"
proof -
  have "0 < MAX_CONVERSATIONS" by (simp add: MAX_CONVERSATIONS_def)
  from last_n_snoc [OF this, of "stored_turns d" "\<lparr>user = None, bot = Some t\<rparr>"] assms
  have ne: "stored_turns d' \<noteq> []" and la: "last (stored_turns d') = \<lparr>user = None, bot = Some t\<rparr>"
    by simp_all
  from ne obtain x xs where x: "stored_turns d' = x # xs" by (cases "stored_turns d'") auto
  from la x have "last (x # xs) = \<lparr>user = None, bot = Some t\<rparr>" by simp
  with x assms show ?thesis
    by (simp add: bot_logged_def)
qed

lemma bot_logged_ends: "bot_logged d d' \<Longrightarrow> ends_with_bot_turn d'"
  by (auto simp: bot_logged_def ends_with_bot_turn_def split: list.splits)

lemma bot_logged_same_turns: "stored_turns d0 = stored_turns d \<Longrightarrow> bot_logged d d' \<Longrightarrow> bot_logged d0 d'"
  by (auto simp: bot_logged_def split: list.splits)

lemma say_Inr:
  assumes "say env t w = (Inr x, w')"
  shows "bot_logged (mem w) (mem w')"
proof (cases rule: say_cases [of w t env])
  case (ok d)
  with assms have "mem w' = d" by auto
  with ok(4) show ?thesis by (auto intro: bot_loggedI)
next
  case (err e)
  with assms show ?thesis by simp
qed

lemma say_handled_logs:
  assumes "stored_turns (mem w0) = stored_turns (mem w)"
  shows "handled_logs_bot w (say_handled env t w0)"
proof -
  obtain r w1 where s: "say env t w0 = (r, w1)" by (cases "say env t w0")
  show ?thesis
  proof (cases r)
    case (Inl e)
    with s show ?thesis by (simp add: say_handled_def handled_logs_bot_def)
  next
    case (Inr x)
    with s say_Inr [of env t w0 x w1] have "bot_logged (mem w0) (mem w1)" by simp
    with assms have "bot_logged (mem w) (mem w1)"
      using bot_logged_same_turns [of "mem w" "mem w0" "mem w1"] by simp
    with s Inr show ?thesis by (simp add: say_handled_def handled_logs_bot_def)
  qed
qed

lemma reload_skills_mem: "reload_skills env w = (msg, w1) \<Longrightarrow> mem w1 = mem w"
  by (auto simp: reload_skills_def Let_def)

lemma skill_command_logs: "handled_logs_bot w (skill_command env cmd w)"
  unfolding skill_command_def
  by (auto simp: Let_def split: prod.splits intro!: say_handled_logs dest: reload_skills_mem)


lemma handle_skill_admin_logs:
  "handle_skill_admin env low w = (Inr False, w) \<or> handled_logs_bot w (handle_skill_admin env low w)"
proof (cases "re_fullmatch True ADMIN_RELOAD_RE low \<noteq> None")
  case True
  obtain msg w1 where r: "reload_skills env w = (msg, w1)" by (cases "reload_skills env w")
  from reload_skills_mem [OF r] have "stored_turns (mem w1) = stored_turns (mem w)" by simp
  from say_handled_logs [OF this, of env msg] True r show ?thesis
    by (simp add: handle_skill_admin_def)
next
  case nr: False
  show ?thesis
  proof (cases "re_fullmatch True LIST_SKILLS_RE low \<noteq> None")
    case True
    from say_handled_logs [of w w env "installed_skills env w"] nr True show ?thesis
      by (simp add: handle_skill_admin_def)
  next
    case nls: False
    show ?thesis
    proof (cases "re_search True SKILL_CMD_RE low")
      case None
      with nr nls show ?thesis by (simp add: handle_skill_admin_def)
    next
      case (Some m)
      with nr nls skill_command_logs [of w env] show ?thesis
        by (simp add: handle_skill_admin_def Let_def)
    qed
  qed
qed

lemma remember_Inr_turns: "remember k v d0 = Inr d \<Longrightarrow> stored_turns d = stored_turns d0"
  by (cases "read_dict d0")
     (auto simp: remember_def stored_turns_def safe_write_def read_dict_simps get_conversations_def)

lemma handle_memory_admin_logs:
  "handle_memory_admin env low w = (Inr False, w) \<or> handled_logs_bot w (handle_memory_admin env low w)"
proof (cases "re_fullmatch True MEM_LIST_RE low \<noteq> None")
  case True
  show ?thesis
  proof (cases "facts_like [] (mem w)")
    case (Inl e)
    with True show ?thesis by (simp add: handle_memory_admin_def handled_logs_bot_def)
  next
    case (Inr pairs)
    with True say_handled_logs [of w w env] show ?thesis
      by (simp add: handle_memory_admin_def)
  qed
next
  case nl: False
  show ?thesis
  proof (cases "re_fullmatch True MEM_GET_RE low")
    case (Some m)
    let ?key = "normalize_key (mgroup 1 m)"
    show ?thesis
    proof (cases "recall ?key (mem w)")
      case (Inl e)
      with nl Some show ?thesis by (simp add: handle_memory_admin_def handled_logs_bot_def)
    next
      case (Inr v1)
      show ?thesis
      proof (cases "truthy v1")
        case True
        with nl Some Inr say_handled_logs [of w w env] show ?thesis
          by (simp add: handle_memory_admin_def Let_def)
      next
        case nt: False
        show ?thesis
        proof (cases "recall (''favorite_'' @ ?key) (mem w)")
          case i: (Inl e)
          with nl Some Inr nt show ?thesis
            by (simp add: handle_memory_admin_def handled_logs_bot_def Let_def)
        next
          case i: (Inr val)
          with nl Some Inr nt say_handled_logs [of w w env] show ?thesis
            by (simp add: handle_memory_admin_def Let_def)
        qed
      qed
    qed
  next
    case ng: None
    show ?thesis
    proof (cases "re_fullmatch True MEM_SET_RE low")
      case None
      with nl ng show ?thesis by (simp add: handle_memory_admin_def)
    next
      case (Some m)
      let ?key = "normalize_key (mgroup 1 m)" and ?val = "strip (mgroup 2 m)"
      show ?thesis
      proof (cases "remember ?key ?val (mem w)")
        case (Inl e)
        with nl ng Some show ?thesis
          by (simp add: handle_memory_admin_def handled_logs_bot_def Let_def)
      next
        case (Inr d)
        from remember_Inr_turns [OF Inr] have "stored_turns (mem (w\<lparr>mem := d\<rparr>)) = stored_turns (mem w)"
          by simp
        from say_handled_logs [OF this, of env] nl ng Some Inr show ?thesis
          by (simp add: handle_memory_admin_def Let_def)
      qed
    qed
  qed
qed

lemma llm_stage_Inr:
  assumes "llm_stage env u w = (Inr c, w')"
  shows "ends_with_bot_turn (mem w')"
proof (cases rule: llm_stage_cases [of w env u])
  case (ok reply es d l')
  with assms have "mem w' = d" by auto
  with ok(3) show ?thesis by (auto intro: bot_logged_ends bot_loggedI)
next
  case (err e)
  with assms show ?thesis by simp
qed

lemma say_Inr_ends: "say env t w = (Inr x, w') \<Longrightarrow> ends_with_bot_turn (mem w')"
  by (auto dest: say_Inr intro: bot_logged_ends)

lemma legacy_stage_Inr:
  assumes "legacy_stage env u w = (Inr c, w')"
  shows "ends_with_bot_turn (mem w')"
proof (cases "legacy_route u")
  case None
  with assms llm_stage_Inr [of env u "emit [LegacyRoute u] w" c w'] show ?thesis
    by (simp add: legacy_stage_def Let_def)
next
  case (Some hit)
  obtain n m where hit: "hit = (n, m)" by (cases hit)
  obtain res d where rr: "registry_run env n u (mem w) = (res, d)" by (cases "registry_run env n u (mem w)")
  define w2 where "w2 = emit [RunLegacy n u] ((emit [LegacyRoute u] w)\<lparr>mem := d\<rparr>)"
  show ?thesis
  proof (cases res)
    case None
    with assms Some hit rr llm_stage_Inr [of env u "emit [PrintLegacyError n] w2" c w']
    show ?thesis by (simp add: legacy_stage_def Let_def w2_def)
  next
    case r: (Some result)
    obtain sr w3 where s: "say env result w2 = (sr, w3)" by (cases "say env result w2")
    show ?thesis
    proof (cases sr)
      case (Inl e)
      with assms Some hit rr r s llm_stage_Inr [of env u "emit [PrintLegacyError n] w3" c w']
      show ?thesis by (simp add: legacy_stage_def Let_def w2_def)
    next
      case (Inr x)
      with assms Some hit rr r s have "w' = w3" by (simp add: legacy_stage_def Let_def w2_def)
      with s Inr say_Inr_ends [of env result w2 x w3] show ?thesis by simp
    qed
  qed
qed

lemma plugin_stage_Inr:
  assumes "plugin_stage env u w = (Inr c, w')"
  shows "ends_with_bot_turn (mem w')"
proof (cases "pr_route (router w) u")
  case None
  with assms legacy_stage_Inr [of env u "emit [Route u] w" c w'] show ?thesis
    by (simp add: plugin_stage_def Let_def)
next
  case (Some sk)
  obtain res d where rr: "sk_run sk u (mem w) = (res, d)" by (cases "sk_run sk u (mem w)")
  define w2 where "w2 = emit [RunSkill (sk_name sk) u] ((emit [Route u] w)\<lparr>mem := d\<rparr>)"
  show ?thesis
  proof (cases res)
    case None
    with assms Some rr legacy_stage_Inr [of env u "emit [PrintSkillError (sk_name sk)] w2" c w']
    show ?thesis by (simp add: plugin_stage_def Let_def w2_def)
  next
    case r: (Some result)
    obtain sr w3 where s: "say env result w2 = (sr, w3)" by (cases "say env result w2")
    show ?thesis
    proof (cases sr)
      case (Inl e)
      with assms Some rr r s legacy_stage_Inr [of env u "emit [PrintSkillError (sk_name sk)] w3" c w']
      show ?thesis by (simp add: plugin_stage_def Let_def w2_def)
    next
      case (Inr x)
      with assms Some rr r s have "w' = w3" by (simp add: plugin_stage_def Let_def w2_def)
      with s Inr say_Inr_ends [of env result w2 x w3] show ?thesis by simp
    qed
  qed
qed


lemma append_conversation_Inr_readable:
  "append_conversation (Some u) b d0 = Inr d \<Longrightarrow> readable d0"
  by (cases "read_dict d0"; cases "mem_read d0")
     (simp_all add: append_conversation_def readable_def)

lemma handled_False_unchanged:
  assumes "h = (Inr False, w) \<or> handled_logs_bot w h" and "h = (Inr False, w1)"
  shows "w1 = w"
  using assms by (auto simp: handled_logs_bot_def)

lemma handled_True_logged:
  assumes "h = (Inr False, w) \<or> handled_logs_bot w h" and "h = (Inr True, w1)"
  shows "bot_logged (mem w) (mem w1)"
  using assms by (auto simp: handled_logs_bot_def)

text \<open>
  Claim C10. Take a pass over a command that does not raise. If the skill-admin handler,
  the memory-admin handler or the memory fast path consumed the utterance, the log is
  the old log with exactly one more turn, a bot turn: no user turn is added. Otherwise
  the utterance is first appended as a user turn, the routing stages run on that store,
  and the log they leave ends with a bot turn, whichever of the skill, the legacy skill
  or the language model replied.
\<close>

theorem user_turn_only_on_fallthrough:
  assumes "process_command env raw w = (Inr c, w')"
  shows "if consumed_early env (command_text (wakew w) raw) w
         then bot_logged (mem w) (mem w')
         else (\<exists>d. append_conversation (Some (command_text (wakew w) raw)) None (mem w) = Inr d
                 \<and> stored_turns d
                     = last_n MAX_CONVERSATIONS
                         (stored_turns (mem w) @ [\<lparr>user = Some (command_text (wakew w) raw), bot = None\<rparr>])
                 \<and> plugin_stage env (command_text (wakew w) raw) (w\<lparr>mem := d\<rparr>) = (Inr c, w')
                 \<and> ends_with_bot_turn (mem w'))"
proof -
  define u where "u = command_text (wakew w) raw"
  define low where "low = strip (lower u)"
  obtain r1 w1 where hs: "handle_skill_admin env low w = (r1, w1)"
    by (cases "handle_skill_admin env low w")
  note hsl = handle_skill_admin_logs [of env low w]
  have pc: "process_command env raw w =
      (case handle_skill_admin env low w of
           (Inl e, w1) \<Rightarrow> (Inl e, w1)
         | (Inr True, w1) \<Rightarrow> (Inr Continue, w1)
         | (Inr False, w1) \<Rightarrow>
             (case handle_memory_admin env low w1 of
                (Inl e, w2) \<Rightarrow> (Inl e, w2)
              | (Inr True, w2) \<Rightarrow> (Inr Continue, w2)
              | (Inr False, w2) \<Rightarrow>
                  (case memory_answer (mem w2) u of
                     Inl e \<Rightarrow> (Inl e, w2)
                   | Inr ans \<Rightarrow>
                       if truthy ans then continue_after (say env (the ans) w2)
                       else (case append_conversation (Some u) None (mem w2) of
                               Inl e \<Rightarrow> (Inl e, w2)
                             | Inr d \<Rightarrow> plugin_stage env u (w2\<lparr>mem := d\<rparr>)))))"
    unfolding u_def low_def process_command_def Let_def by (rule refl)
  have ce: "consumed_early env u w =
      (case handle_skill_admin env low w of
        (Inl e, w1) \<Rightarrow> False
      | (Inr True, w1) \<Rightarrow> True
      | (Inr False, w1) \<Rightarrow>
          (case handle_memory_admin env low w1 of
             (Inl e, w2) \<Rightarrow> False
           | (Inr True, w2) \<Rightarrow> True
           | (Inr False, w2) \<Rightarrow>
               (case memory_answer (mem w2) u of Inl e \<Rightarrow> False | Inr ans \<Rightarrow> truthy ans)))"
    unfolding u_def low_def consumed_early_def Let_def by (rule refl)
  have goal: "if consumed_early env u w
         then bot_logged (mem w) (mem w')
         else (\<exists>d. append_conversation (Some u) None (mem w) = Inr d
                 \<and> stored_turns d
                     = last_n MAX_CONVERSATIONS (stored_turns (mem w) @ [\<lparr>user = Some u, bot = None\<rparr>])
                 \<and> plugin_stage env u (w\<lparr>mem := d\<rparr>) = (Inr c, w')
                 \<and> ends_with_bot_turn (mem w'))"
  proof (cases r1)
    case (Inl e)
    with assms hs pc show ?thesis by simp
  next
    case (Inr b1)
    show ?thesis
    proof (cases b1)
      case True
      with assms hs pc Inr have "w' = w1" by simp
      moreover from handled_True_logged [OF hsl] hs Inr True have "bot_logged (mem w) (mem w1)" by simp
      ultimately show ?thesis using ce hs Inr True by simp
    next
      case False
      from handled_False_unchanged [OF hsl] hs Inr False have w1: "w1 = w" by simp
      obtain r2 w2 where hm: "handle_memory_admin env low w = (r2, w2)"
        by (cases "handle_memory_admin env low w")
      note hml = handle_memory_admin_logs [of env low w]
      show ?thesis
      proof (cases r2)
        case i2: (Inl e)
        with assms hs pc Inr False w1 hm show ?thesis by simp
      next
        case i2: (Inr b2)
        show ?thesis
        proof (cases b2)
          case True
          with assms hs pc Inr False w1 hm i2 have "w' = w2" by simp
          moreover from handled_True_logged [OF hml] hm i2 True have "bot_logged (mem w) (mem w2)"
            by simp
          ultimately show ?thesis using ce hs Inr False w1 hm i2 True by simp
        next
          case f2: False
          from handled_False_unchanged [OF hml] hm i2 f2 have w2: "w2 = w" by simp
          show ?thesis
          proof (cases "memory_answer (mem w) u")
            case ma: (Inl e)
            with assms hs pc Inr False w1 hm i2 f2 w2 show ?thesis by simp
          next
            case ma: (Inr ans)
            show ?thesis
            proof (cases "truthy ans")
              case True
              with assms hs pc Inr False w1 hm i2 f2 w2 ma
              have "continue_after (say env (the ans) w) = (Inr c, w')" by simp
              then obtain x where "say env (the ans) w = (Inr x, w')"
                by (cases "say env (the ans) w"; cases "fst (say env (the ans) w)")
                   (auto simp: continue_after_def)
              from say_Inr [OF this] have "bot_logged (mem w) (mem w')" .
              then show ?thesis using ce hs Inr False w1 hm i2 f2 w2 ma True by simp
            next
              case nt: False
              show ?thesis
              proof (cases "append_conversation (Some u) None (mem w)")
                case ac: (Inl e)
                with assms hs pc Inr False w1 hm i2 f2 w2 ma nt show ?thesis by simp
              next
                case ac: (Inr d)
                with assms hs pc Inr False w1 hm i2 f2 w2 ma nt
                have ps: "plugin_stage env u (w\<lparr>mem := d\<rparr>) = (Inr c, w')" by simp
                from append_conversation_step [OF append_conversation_Inr_readable [OF ac], of "Some u" None] ac
                have t: "stored_turns d
                     = last_n MAX_CONVERSATIONS (stored_turns (mem w) @ [\<lparr>user = Some u, bot = None\<rparr>])"
                  by auto
                from plugin_stage_Inr [OF ps] have "ends_with_bot_turn (mem w')" .
                with ps t ac show ?thesis using ce hs Inr False w1 hm i2 f2 w2 ma nt by simp
              qed
            qed
          qed
        qed
      qed
    qed
  qed
  then show ?thesis by (simp only: u_def)
qed

theorem user_turn_only_on_fallthrough_witness:
  "consumed_early example_env ''list memory'' example_world
   \<and> bot_logged (mem example_world)
        (mem (snd (process_command example_env ''list memory'' example_world)))
   \<and> \<not> consumed_early example_env ''tell me a joke'' example_world
   \<and> (\<exists>d. append_conversation (Some ''tell me a joke'') None (mem example_world) = Inr d
         \<and> stored_turns d = [\<lparr>user = Some ''tell me a joke'', bot = None\<rparr>])
   \<and> ends_with_bot_turn (mem (snd (process_command example_env ''tell me a joke'' example_world)))"
proof -
  let ?a = "process_command example_env ''list memory'' example_world"
  let ?b = "process_command example_env ''tell me a joke'' example_world"
  have fa: "fst ?a = Inr Continue" by code_simp
  have fb: "fst ?b = Inr Continue" by code_simp
  have a: "?a = (Inr Continue, snd ?a)" using fa by (simp add: prod_eq_iff)
  have b: "?b = (Inr Continue, snd ?b)" using fb by (simp add: prod_eq_iff)
  have ta: "command_text (wakew example_world) ''list memory'' = ''list memory''" by code_simp
  have tb: "command_text (wakew example_world) ''tell me a joke'' = ''tell me a joke''" by code_simp
  have ca: "consumed_early example_env ''list memory'' example_world" by code_simp
  have cb: "\<not> consumed_early example_env ''tell me a joke'' example_world" by code_simp
  have t: "stored_turns (mem example_world) = []" by code_simp
  from user_turn_only_on_fallthrough [OF a] ca
  have r1: "bot_logged (mem example_world) (mem (snd ?a))" by (simp add: ta)
  from user_turn_only_on_fallthrough [OF b] cb
  have r2: "\<exists>d. append_conversation (Some ''tell me a joke'') None (mem example_world) = Inr d
         \<and> stored_turns d = last_n MAX_CONVERSATIONS
              (stored_turns (mem example_world) @ [\<lparr>user = Some ''tell me a joke'', bot = None\<rparr>])
         \<and> ends_with_bot_turn (mem (snd ?b))"
    by (auto simp: tb)
  from ca cb r1 r2 show ?thesis
    by (auto simp: t last_n_def MAX_CONVERSATIONS_def)
qed

section \<open>Reading a file that is not a document\<close>

text \<open>
  Claim C5, evaluated on the code. The constructor replaces a missing or unparseable
  file by the empty document. A file holding \<open>[]\<close> parses, so the constructor keeps it,
  and on the store so constructed \<open>recall\<close> and \<open>facts_like\<close> raise
  \<open>AttributeError\<close>; on a file that is unparseable at the time of the read they raise
  the decoder's error. Neither is taken as the empty state, on which \<open>recall\<close> gives
  \<open>None\<close> and \<open>facts_like\<close> gives no fact, and the exception leaves the pass of the loop
  that asked.
\<close>

theorem unguarded_read_raises:
  "Memory_init Absent = Json empty_document
   \<and> Memory_init Corrupt = Json empty_document
   \<and> Memory_init NotObject = NotObject
   \<and> recall ''user_name'' (Memory_init NotObject) = Inl AttributeError
   \<and> facts_like ''name'' (Memory_init NotObject) = Inl AttributeError
   \<and> recall ''user_name'' Corrupt = Inl JSONDecodeError
   \<and> facts_like ''name'' Corrupt = Inl JSONDecodeError
   \<and> recall ''user_name'' (Json empty_document) = Inr None
   \<and> facts_like ''name'' (Json empty_document) = Inr []
   \<and> fst (run_pass example_env whats_my_name list_file_world) = Inl AttributeError
   \<and> fst (run_pass example_env whats_my_name (example_world\<lparr>mem := Corrupt\<rparr>))
       = Inl JSONDecodeError"
  by code_simp

end
